theory Spec2Isabelle
  imports Complex_Main "HOL-Library.AList" "HOL-Library.Char_ord" "HOL-Library.List_Lexorder"
begin

section \<open>Text: characters, lowercasing, whitespace\<close>

text \<open>
  A Python \<^verbatim>\<open>str\<close> is a sequence of code points. The model is \<^typ>\<open>string\<close>, each
  \<^typ>\<open>char\<close> standing for the code point with the same number (0 to 255), so
  \<^const>\<open>length\<close> counts what \<^verbatim>\<open>len\<close> counts. Texts with code points above 255 are
  outside the model. A Python \<^verbatim>\<open>float\<close> is modelled by \<^typ>\<open>real\<close>: rounding,
  underflow and overflow of IEEE doubles are outside the model.
\<close>

definition code :: "char \<Rightarrow> nat" where
  "code c = of_char c"

text \<open>The class \<^verbatim>\<open>[a-z]\<close> of the token pattern.\<close>

definition is_az :: "char \<Rightarrow> bool" where
  "is_az c = (97 \<le> code c \<and> code c \<le> 122)"

text \<open>
  The class \<^verbatim>\<open>\w\<close> of a \<^verbatim>\<open>str\<close> pattern, which decides where \<^verbatim>\<open>\b\<close> holds:
  the alphanumeric code points and the underscore. Below 256 these are the ASCII digits
  and letters, \<^verbatim>\<open>_\<close>, and the Latin-1 letters and numerals.
\<close>

definition is_word_char :: "char \<Rightarrow> bool" where
  "is_word_char c =
     (let n = code c in
      (48 \<le> n \<and> n \<le> 57) \<or> (65 \<le> n \<and> n \<le> 90) \<or> n = 95 \<or> (97 \<le> n \<and> n \<le> 122) \<or>
      n = 170 \<or> n = 178 \<or> n = 179 \<or> n = 181 \<or> n = 185 \<or> n = 186 \<or>
      (188 \<le> n \<and> n \<le> 190) \<or> (192 \<le> n \<and> n \<le> 214) \<or> (216 \<le> n \<and> n \<le> 246) \<or>
      (248 \<le> n \<and> n \<le> 255))"

text \<open>
  The class \<^verbatim>\<open>\s\<close>, which is also what \<^verbatim>\<open>str.strip()\<close> removes: tab to carriage
  return, the four separators 28 to 31, the space, NEL (133) and the no-break space (160).
\<close>

definition is_space :: "char \<Rightarrow> bool" where
  "is_space c =
     (let n = code c in
      (9 \<le> n \<and> n \<le> 13) \<or> (28 \<le> n \<and> n \<le> 32) \<or> n = 133 \<or> n = 160)"

text \<open>The class \<^verbatim>\<open>[.!?]\<close> of the sentence pattern.\<close>

definition is_sentence_punct :: "char \<Rightarrow> bool" where
  "is_sentence_punct c = (c = CHR ''.'' \<or> c = CHR ''!'' \<or> c = CHR ''?'')"

text \<open>
  \<^verbatim>\<open>str.lower()\<close>: below 256 the code points with a different lowercase form are
  A to Z and the Latin-1 capitals 192 to 222 without the multiplication sign (215); each
  maps to the code point 32 above it.
\<close>

definition lower_char :: "char \<Rightarrow> char" where
  "lower_char c =
     (let n = code c in
      if (65 \<le> n \<and> n \<le> 90) \<or> (192 \<le> n \<and> n \<le> 214) \<or> (216 \<le> n \<and> n \<le> 222)
      then char_of (n + 32) else c)"

definition lower :: "string \<Rightarrow> string" where
  "lower text = map lower_char text"

text \<open>\<^verbatim>\<open>str.strip()\<close>: whitespace removed at both ends.\<close>

definition strip :: "string \<Rightarrow> string" where
  "strip text = rev (dropWhile is_space (rev (dropWhile is_space text)))"

section \<open>OptimizedTFIDF.tokenize\<close>

text \<open>
  \<^verbatim>\<open>tokens = tuple(re.findall(r'\b[a-z]{2,}\b', text.lower()))\<close>

  \<^verbatim>\<open>\b\<close> holds between two neighbours of which exactly one is a word character; the
  outside of the text counts as a non-word character.
\<close>

definition is_word_opt :: "char option \<Rightarrow> bool" where
  "is_word_opt c = (case c of None \<Rightarrow> False | Some x \<Rightarrow> is_word_char x)"

definition word_boundary :: "char option \<Rightarrow> char option \<Rightarrow> bool" where
  "word_boundary l r = (is_word_opt l \<noteq> is_word_opt r)"

definition char_at :: "string \<Rightarrow> nat \<Rightarrow> char option" where
  "char_at s i = (if i < length s then Some (s ! i) else None)"

text \<open>
  One attempt of the pattern at the head of \<open>s\<close>, the character before it being \<open>prev\<close>:
  \<^verbatim>\<open>\b\<close> here, then the greedy \<^verbatim>\<open>[a-z]{2,}\<close>, which takes the whole run of a-z and gives
  characters back one at a time (never below two) until \<^verbatim>\<open>\b\<close> holds behind it. The
  result is the length of the match.
\<close>

definition match_token :: "char option \<Rightarrow> string \<Rightarrow> nat option" where
  "match_token prev s =
     (if word_boundary prev (char_at s 0)
      then find (\<lambda>k. word_boundary (char_at s (k - 1)) (char_at s k))
             (rev [2 ..< Suc (length (takeWhile is_az s))])
      else None)"

lemma find_Some_set: "find P xs = Some x \<Longrightarrow> x \<in> set xs \<and> P x"
  by (induction xs) (auto split: if_splits)

lemma match_token_ge2: "match_token prev s = Some k \<Longrightarrow> 2 \<le> k"
  by (auto simp: match_token_def split: if_splits dest!: find_Some_set)

text \<open>
  \<^verbatim>\<open>re.findall\<close>: the leftmost match, then the search goes on behind it; where the
  pattern does not match, the search moves one character on.
\<close>

function findall_tokens :: "char option \<Rightarrow> string \<Rightarrow> string list" where
  "findall_tokens prev [] = []"
| "findall_tokens prev (c # cs) =
     (case match_token prev (c # cs) of
        Some k \<Rightarrow> take k (c # cs) # findall_tokens (char_at (c # cs) (k - 1)) (drop k (c # cs))
      | None \<Rightarrow> findall_tokens (Some c) cs)"
  by pat_completeness auto
termination
  by (relation "measure (\<lambda>(prev, s). length s)") (auto dest: match_token_ge2)

definition tokenize :: "string \<Rightarrow> string list" where
  "tokenize text = findall_tokens None (lower text)"

text \<open>
  The specification's wording, for comparison: the maximal runs of lowercase alphabetic
  characters of the lowercased input that have length at least 2.
\<close>

function runs :: "(char \<Rightarrow> bool) \<Rightarrow> string \<Rightarrow> string list" where
  "runs P [] = []"
| "runs P (c # cs) =
     (if P c then takeWhile P (c # cs) # runs P (dropWhile P cs) else runs P cs)"
  by pat_completeness auto
termination
  by (relation "measure (\<lambda>(P, s). length s)") (auto simp: less_Suc_eq_le length_dropWhile_le)

definition spec_tokenize :: "string \<Rightarrow> string list" where
  "spec_tokenize text = filter (\<lambda>w. 2 \<le> length w) (runs is_az (lower text))"

text \<open>
  What the pattern selects: the words (maximal runs of word characters) that consist of
  a-z only and have length at least 2.
\<close>

definition is_token :: "string \<Rightarrow> bool" where
  "is_token w = (2 \<le> length w \<and> list_all is_az w)"

section \<open>The chunker of FastSimpleRAGEngine\<close>

text \<open>
  A slice \<^verbatim>\<open>xs[lo:hi]\<close>: a negative bound counts from the end, and every bound is
  clamped to the list; an empty range gives the empty list.
\<close>

definition slice_index :: "nat \<Rightarrow> int \<Rightarrow> nat" where
  "slice_index n i = (if i < 0 then nat (max 0 (int n + i)) else min n (nat i))"

definition py_slice :: "'a list \<Rightarrow> int \<Rightarrow> int \<Rightarrow> 'a list" where
  "py_slice xs lo hi =
     (let a = slice_index (length xs) lo; b = slice_index (length xs) hi
      in take (b - a) (drop a xs))"

text \<open>
  \<^verbatim>\<open>for match in re.finditer(r'[.!?]\s+', text): sentence_ends.append(match.end())\<close>

  \<open>i\<close> is the position of the head of the rest of the text. A match is one of
  \<^verbatim>\<open>.!?\<close> and all the whitespace behind it (at least one); the search goes on behind
  the match.
\<close>

function sentence_ends_from :: "nat \<Rightarrow> string \<Rightarrow> int list" where
  "sentence_ends_from i [] = []"
| "sentence_ends_from i (c # cs) =
     (if is_sentence_punct c \<and> takeWhile is_space cs \<noteq> []
      then int (i + 1 + length (takeWhile is_space cs)) #
           sentence_ends_from (i + 1 + length (takeWhile is_space cs)) (dropWhile is_space cs)
      else sentence_ends_from (i + 1) cs)"
  by pat_completeness auto
termination
  by (relation "measure (\<lambda>(i, s). length s)") (auto simp: less_Suc_eq_le length_dropWhile_le)

text \<open>
  The inner loop: the last sentence end in the window
  \<^verbatim>\<open>start + chunk_size // 2 < sent_end <= end\<close> wins, the raw end stays when there is none.
\<close>

definition best_break :: "int list \<Rightarrow> int \<Rightarrow> int \<Rightarrow> int \<Rightarrow> int" where
  "best_break sentence_ends start chunk_size end0 =
     fold (\<lambda>sent_end bb. if start + chunk_size div 2 < sent_end \<and> sent_end \<le> end0
                           then sent_end else bb)
       sentence_ends end0"

text \<open>
  The \<^verbatim>\<open>while start < len(text)\<close> loop. It has no bound of its own, so the model is a
  partial function: \<^const>\<open>None\<close> is the loop that never ends.
\<close>

partial_function (option) chunk_loop ::
  "string \<Rightarrow> int list \<Rightarrow> int \<Rightarrow> int \<Rightarrow> int \<Rightarrow> string list \<Rightarrow> string list option" where
  "chunk_loop text sentence_ends chunk_size overlap start chunks =
     (if start < int (length text) then
        let end0 = start + chunk_size;
            end1 = (if end0 < int (length text)
                    then best_break sentence_ends start chunk_size end0 else end0);
            chunk = strip (py_slice text start end1);
            chunks' = (if chunk \<noteq> [] then chunks @ [chunk] else chunks)
        in chunk_loop text sentence_ends chunk_size overlap (end1 - overlap) chunks'
      else Some chunks)"

definition optimized_chunk_text :: "string \<Rightarrow> int \<Rightarrow> int \<Rightarrow> string list option" where
  "optimized_chunk_text text chunk_size overlap =
     (if int (length text) \<le> chunk_size then Some [text]
      else chunk_loop text (sentence_ends_from 0 text) chunk_size overlap 0 [])"

section \<open>OptimizedTFIDF\<close>

text \<open>
  The exceptions the modelled code can raise: \<^verbatim>\<open>math.log\<close> outside its domain, a
  missing dictionary key, a list index out of range.
\<close>

datatype py_error = ValueError | KeyError | IndexError

text \<open>
  A \<^verbatim>\<open>dict\<close> keeps its keys in insertion order, and the caches below drop their oldest
  keys, so the dictionaries are association lists: \<^const>\<open>map_of\<close> reads a key,
  \<^const>\<open>AList.update\<close> is \<^verbatim>\<open>d[k] = v\<close> (a new key goes to the end),
  \<^const>\<open>AList.delete\<close> is \<^verbatim>\<open>del d[k]\<close>.

  Where the code uses \<^verbatim>\<open>hashlib.md5(text.encode()).hexdigest()\<close> as a key, the model uses
  the text: a digest stands for the text it was made from (two texts with one digest are
  outside the model).
\<close>

type_synonym ('k, 'v) dict = "('k \<times> 'v) list"

text \<open>
  \<^verbatim>\<open>oldest_keys = list(cache.keys())[:n]\<close>, then \<^verbatim>\<open>del cache[old_key]\<close> for each.
\<close>

definition evict_oldest :: "nat \<Rightarrow> ('k, 'v) dict \<Rightarrow> ('k, 'v) dict" where
  "evict_oldest n cache = fold AList.delete (map fst (take n cache)) cache"

text \<open>
  The fitted model, which is also what \<^verbatim>\<open>fit\<close> pickles; \<open>tfidf_documents\<close> is the
  attribute \<^verbatim>\<open>documents\<close> of the vectorizer (the engine has an attribute of that name too).
\<close>

record model =
  vocabulary :: "(string, nat) dict"
  document_frequencies :: "(string, nat) dict"
  tfidf_documents :: "string list"
  tf_idf_vectors :: "real list list"
  idf_values :: "(string, real) dict"

text \<open>
  The vectorizer: the model, \<^verbatim>\<open>_vector_cache\<close>, the \<^verbatim>\<open>lru_cache\<close> of
  \<^verbatim>\<open>tokenize\<close> (most recently used first), and the file
  \<^verbatim>\<open>cache/tfidf_model.pkl\<close> with the documents it was written for (\<^verbatim>\<open>docs_hash\<close>).
  The attribute \<^verbatim>\<open>_tokenize_cache\<close> is never read or written and is left out.
\<close>

record tfidf = model +
  vector_cache :: "(string, real list) dict"
  tokenize_cache :: "(string, string list) dict"
  cache_file :: "(string list \<times> model) option"

text \<open>
  \<^verbatim>\<open>@lru_cache(maxsize=10000)\<close> on \<^verbatim>\<open>tokenize\<close>: a call moves the text to the front
  of the cache and the least recently used entry leaves when there are more than 10000.
  \<^const>\<open>tokenize\<close> is pure, so a hit returns what a new computation returns; the model
  computes the tokens and records the cache beside it.
\<close>

definition lru_touch :: "string \<Rightarrow> (string, string list) dict \<Rightarrow> (string, string list) dict" where
  "lru_touch text cache = take 10000 ((text, tokenize text) # filter (\<lambda>e. fst e \<noteq> text) cache)"

text \<open>\<^verbatim>\<open>Counter(tokens).items()\<close> lists the distinct tokens in order of first occurrence.\<close>

definition uniq :: "'a list \<Rightarrow> 'a list" where
  "uniq xs = rev (remdups (rev xs))"

definition compute_tf :: "string list \<Rightarrow> (string, real) dict" where
  "compute_tf tokens =
     (if length tokens = 0 then []
      else map (\<lambda>token. (token, real (count_list tokens token) / real (length tokens)))
             (uniq tokens))"

text \<open>
  \<^verbatim>\<open>self.vocabulary = {word: i for i, word in enumerate(sorted(all_words))}\<close>
\<close>

definition build_vocabulary :: "string list list \<Rightarrow> (string, nat) dict" where
  "build_vocabulary all_tokens =
     (let words = sort (remdups (concat all_tokens)) in zip words [0 ..< length words])"

text \<open>
  \<^verbatim>\<open>for tokens in all_tokens: for token in set(tokens): self.document_frequencies[token] += 1\<close>

  The table is a \<^verbatim>\<open>defaultdict(int)\<close> and \<^verbatim>\<open>fit\<close> never empties it. The order in which
  a set is walked is not fixed by Python; it decides only the order of the keys, which no
  result depends on.
\<close>

definition df_count :: "(string, nat) dict \<Rightarrow> string \<Rightarrow> nat" where
  "df_count df token = (case map_of df token of None \<Rightarrow> 0 | Some n \<Rightarrow> n)"

definition count_document_frequencies ::
  "string list list \<Rightarrow> (string, nat) dict \<Rightarrow> (string, nat) dict" where
  "count_document_frequencies all_tokens df =
     fold (\<lambda>tokens df. fold (\<lambda>token df. AList.update token (df_count df token + 1) df)
             (uniq tokens) df)
       all_tokens df"

text \<open>
  \<^verbatim>\<open>for token, df in self.document_frequencies.items():
      self.idf_values[token] = math.log(num_documents / df) if df > 0 else 0\<close>

  \<^verbatim>\<open>math.log(0.0)\<close> raises ValueError. An operation that can raise returns the
  exception (if any) and the state it leaves behind.
\<close>

fun compute_idf ::
  "nat \<Rightarrow> (string, nat) dict \<Rightarrow> (string, real) dict \<Rightarrow> py_error option \<times> (string, real) dict" where
  "compute_idf num_documents [] idf = (None, idf)"
| "compute_idf num_documents ((token, df) # rest) idf =
     (if df > 0 then
        (if num_documents = 0 then (Some ValueError, idf)
         else compute_idf num_documents rest
                (AList.update token (ln (real num_documents / real df)) idf))
      else compute_idf num_documents rest (AList.update token 0 idf))"

text \<open>
  The vector of one text in \<^verbatim>\<open>fit\<close>:
  \<^verbatim>\<open>for token, tf_score in tf.items():
      if token in self.vocabulary:
          vector[self.vocabulary[token]] = tf_score * self.idf_values[token]\<close>
\<close>

fun fit_vector ::
  "(string, nat) dict \<Rightarrow> (string, real) dict \<Rightarrow> (string, real) dict \<Rightarrow> real list
   \<Rightarrow> py_error + real list" where
  "fit_vector vocab idf [] vector = Inr vector"
| "fit_vector vocab idf ((token, tf_score) # rest) vector =
     (case map_of vocab token of
        None \<Rightarrow> fit_vector vocab idf rest vector
      | Some i \<Rightarrow>
          (case map_of idf token of
             None \<Rightarrow> Inl KeyError
           | Some w \<Rightarrow>
               if i < length vector then fit_vector vocab idf rest (vector[i := tf_score * w])
               else Inl IndexError))"

text \<open>
  The loop over all texts in \<^verbatim>\<open>fit\<close>; \<open>vectors\<close> is \<^verbatim>\<open>self.tf_idf_vectors\<close>, which
  grows by one vector per text.
\<close>

fun fit_vectors ::
  "(string, nat) dict \<Rightarrow> (string, real) dict \<Rightarrow> string list list \<Rightarrow> real list list
   \<Rightarrow> py_error option \<times> real list list" where
  "fit_vectors vocab idf [] vectors = (None, vectors)"
| "fit_vectors vocab idf (tokens # rest) vectors =
     (case fit_vector vocab idf (compute_tf tokens) (replicate (length vocab) 0) of
        Inl e \<Rightarrow> (Some e, vectors)
      | Inr vector \<Rightarrow> fit_vectors vocab idf rest (vectors @ [vector]))"

text \<open>
  \<^verbatim>\<open>fit\<close> where no cache file matches: every step writes its attribute, so an
  exception leaves the attributes written so far. Writing the cache file is taken to
  succeed (the code only logs a failure).
\<close>

definition fit_compute :: "string list \<Rightarrow> tfidf \<Rightarrow> py_error option \<times> tfidf" where
  "fit_compute docs t =
     (let all_tokens = map tokenize docs;
          t1 = t\<lparr>tfidf_documents := docs,
                 tokenize_cache := fold lru_touch docs (tokenize_cache t),
                 vocabulary := build_vocabulary all_tokens,
                 document_frequencies :=
                   count_document_frequencies all_tokens (document_frequencies t)\<rparr>;
          (e1, idf) = compute_idf (length docs) (document_frequencies t1) (idf_values t1);
          t2 = t1\<lparr>idf_values := idf\<rparr>
      in case e1 of
           Some e \<Rightarrow> (Some e, t2)
         | None \<Rightarrow>
             (let (e2, vectors) = fit_vectors (vocabulary t2) idf all_tokens [];
                  t3 = t2\<lparr>tf_idf_vectors := vectors\<rparr>
              in case e2 of
                   Some e \<Rightarrow> (Some e, t3)
                 | None \<Rightarrow> (None, t3\<lparr>cache_file := Some (docs, model.truncate t3)\<rparr>)))"

text \<open>
  \<^verbatim>\<open>fit\<close>: a cache file written for the same documents is loaded and nothing is
  computed.
\<close>

definition fit :: "string list \<Rightarrow> tfidf \<Rightarrow> py_error option \<times> tfidf" where
  "fit docs t =
     (case cache_file t of
        None \<Rightarrow> fit_compute docs t
      | Some (docs_hash, cached_data) \<Rightarrow>
          if docs_hash = docs
          then (None, t\<lparr>vocabulary := vocabulary cached_data,
                         document_frequencies := document_frequencies cached_data,
                         tfidf_documents := tfidf_documents cached_data,
                         tf_idf_vectors := tf_idf_vectors cached_data,
                         idf_values := idf_values cached_data\<rparr>)
          else fit_compute docs t)"

text \<open>
  The vector of a text in \<^verbatim>\<open>transform\<close>:
  \<^verbatim>\<open>for token, tf_score in tf.items():
      if token in self.vocabulary and token in self.idf_values:
          vector[self.vocabulary[token]] = tf_score * self.idf_values[token]\<close>
\<close>

fun transform_vector ::
  "(string, nat) dict \<Rightarrow> (string, real) dict \<Rightarrow> (string, real) dict \<Rightarrow> real list
   \<Rightarrow> py_error + real list" where
  "transform_vector vocab idf [] vector = Inr vector"
| "transform_vector vocab idf ((token, tf_score) # rest) vector =
     (case map_of vocab token of
        None \<Rightarrow> transform_vector vocab idf rest vector
      | Some i \<Rightarrow>
          (case map_of idf token of
             None \<Rightarrow> transform_vector vocab idf rest vector
           | Some w \<Rightarrow>
               if i < length vector
               then transform_vector vocab idf rest (vector[i := tf_score * w])
               else Inl IndexError))"

text \<open>
  The TF-IDF vector of a text under the fitted model, as \<^verbatim>\<open>transform\<close> computes it when
  the vector cache has nothing for the text.
\<close>

definition query_tfidf :: "tfidf \<Rightarrow> string \<Rightarrow> py_error + real list" where
  "query_tfidf t text =
     transform_vector (vocabulary t) (idf_values t) (compute_tf (tokenize text))
       (replicate (length (vocabulary t)) 0)"

text \<open>
  \<^verbatim>\<open>transform\<close>: the vector cache is read first; a computed vector is stored, and when
  the cache has more than 1000 entries the oldest 100 leave.
\<close>

definition transform :: "string \<Rightarrow> tfidf \<Rightarrow> (py_error + real list) \<times> tfidf" where
  "transform text t =
     (case map_of (vector_cache t) text of
        Some vector \<Rightarrow> (Inr vector, t)
      | None \<Rightarrow>
          (let t1 = t\<lparr>tokenize_cache := lru_touch text (tokenize_cache t)\<rparr> in
           case query_tfidf t text of
             Inl e \<Rightarrow> (Inl e, t1)
           | Inr vector \<Rightarrow>
               (let cache = AList.update text vector (vector_cache t)
                in (Inr vector,
                    t1\<lparr>vector_cache :=
                         (if length cache > 1000 then evict_oldest 100 cache else cache)\<rparr>))))"

text \<open>\<^verbatim>\<open>OptimizedTFIDF()\<close> where no cache file exists.\<close>

definition new_tfidf :: tfidf where
  "new_tfidf =
     \<lparr>vocabulary = [], document_frequencies = [], tfidf_documents = [], tf_idf_vectors = [],
      idf_values = [], vector_cache = [], tokenize_cache = [], cache_file = None\<rparr>"

text \<open>
  \<^verbatim>\<open>cosine_similarity_optimized\<close>: one pass over \<^verbatim>\<open>zip(vec1, vec2)\<close> for the dot product
  and the two squared magnitudes.
\<close>

definition cosine_similarity_optimized :: "real list \<Rightarrow> real list \<Rightarrow> real" where
  "cosine_similarity_optimized vec1 vec2 =
     (let (dot_product, magnitude1_sq, magnitude2_sq) =
            fold (\<lambda>(a, b) (d, m1, m2). (d + a * b, m1 + a * a, m2 + b * b)) (zip vec1 vec2) (0, 0, 0)
      in if magnitude1_sq = 0 \<or> magnitude2_sq = 0 then 0
         else dot_product / (sqrt magnitude1_sq * sqrt magnitude2_sq))"

section \<open>FastSimpleRAGEngine\<close>

text \<open>
  A document as the document processor hands it over, and a chunk: the row of the table
  \<^verbatim>\<open>documents\<close> and the dictionary kept in \<^verbatim>\<open>self.documents\<close> have the document's
  fields, the chunk's text as \<open>content\<close>, an \<open>id\<close> (here \<open>chunk_id\<close>) and the
  \<open>chunk_index\<close>.
\<close>

record document =
  file_name :: string
  file_path :: string
  title :: string
  content :: string
  content_type :: string

record chunk = document +
  chunk_id :: nat
  chunk_index :: nat

text \<open>One entry of a search result; the four metadata fields are flattened.\<close>

record search_result =
  result_content :: string
  result_file_name :: string
  result_title :: string
  result_content_type :: string
  result_chunk_index :: nat
  similarity_score :: real

text \<open>
  The engine: the vectorizer, the two caches, the table (its rows and the last id that
  \<^verbatim>\<open>AUTOINCREMENT\<close> gave out), the chunks in memory, the flag and the norms. The key
  of the similarity cache is \<^verbatim>\<open>f"{query_hash}_{n_results}"\<close>, here the pair. The
  completion client and the files \<^verbatim>\<open>doc_norms.pkl\<close> and \<^verbatim>\<open>docs_signature.txt\<close>, which
  only the unreachable \<^verbatim>\<open>_load_cached_index\<close> reads, are left out.
\<close>

record engine =
  tfidf :: tfidf
  response_cache :: "(string, string) dict"
  similarity_cache :: "(string \<times> int, search_result list) dict"
  db_rows :: "chunk list"
  db_seq :: nat
  documents :: "chunk list"
  indexed :: bool
  doc_norms :: "real list"

text \<open>\<^verbatim>\<open>FastSimpleRAGEngine()\<close> on an empty database, with no cache file.\<close>

definition new_engine :: engine where
  "new_engine =
     \<lparr>tfidf = new_tfidf, response_cache = [], similarity_cache = [], db_rows = [], db_seq = 0,
      documents = [], indexed = False, doc_norms = []\<rparr>"

text \<open>
  The body of the loop over the chunks of one document: the \<^verbatim>\<open>INSERT\<close>,
  \<^verbatim>\<open>texts.append(chunk)\<close>, \<^verbatim>\<open>self.documents.append({...})\<close> and \<^verbatim>\<open>doc_id += 1\<close>.
\<close>

definition make_chunk :: "document \<Rightarrow> string \<Rightarrow> nat \<Rightarrow> nat \<Rightarrow> chunk" where
  "make_chunk doc text i ident =
     \<lparr>file_name = file_name doc, file_path = file_path doc, title = title doc, content = text,
      content_type = content_type doc, chunk_id = ident, chunk_index = i\<rparr>"

definition store_chunk ::
  "document \<Rightarrow> nat \<times> string \<Rightarrow> engine \<times> string list \<times> nat \<Rightarrow> engine \<times> string list \<times> nat" where
  "store_chunk doc ic acc =
     (case (ic, acc) of ((i, c), (s, texts, doc_id)) \<Rightarrow>
        (s\<lparr>db_rows := db_rows s @ [make_chunk doc c i (db_seq s + 1)],
           db_seq := db_seq s + 1,
           documents := documents s @ [make_chunk doc c i doc_id]\<rparr>,
         texts @ [c], doc_id + 1))"

text \<open>
  The loop over the documents, with the chunker at its default sizes. \<^const>\<open>None\<close> is a
  chunker that does not return.
\<close>

fun store_documents ::
  "document list \<Rightarrow> engine \<times> string list \<times> nat \<Rightarrow> (engine \<times> string list \<times> nat) option" where
  "store_documents [] acc = Some acc"
| "store_documents (doc # docs) acc =
     (case optimized_chunk_text (content doc) 1000 200 of
        None \<Rightarrow> None
      | Some chunks \<Rightarrow> store_documents docs (fold (store_chunk doc) (enumerate 0 chunks) acc))"

text \<open>\<^verbatim>\<open>math.sqrt(sum(x * x for x in vector))\<close>\<close>

definition vector_norm :: "real list \<Rightarrow> real" where
  "vector_norm vector = sqrt (sum_list (map (\<lambda>x. x * x) vector))"

text \<open>
  \<^verbatim>\<open>index_documents\<close>. \<^verbatim>\<open>_check_documents_cached\<close> returns False always, so the table
  is cleared and filled again, in one transaction that is committed before the texts are
  looked at. An exception of \<^verbatim>\<open>fit\<close> ends in the \<^verbatim>\<open>except\<close> branch.
\<close>

definition index_documents :: "document list \<Rightarrow> engine \<Rightarrow> (bool \<times> engine) option" where
  "index_documents docs s =
     (case store_documents docs (s\<lparr>db_rows := [], documents := []\<rparr>, [], 0) of
        None \<Rightarrow> None
      | Some (s1, texts, doc_id) \<Rightarrow>
          if texts \<noteq> [] then
            (case fit texts (tfidf s1) of
               (Some e, t) \<Rightarrow> Some (False, s1\<lparr>tfidf := t\<rparr>)
             | (None, t) \<Rightarrow>
                 Some (True, s1\<lparr>tfidf := t,
                                 doc_norms := map vector_norm (tf_idf_vectors t),
                                 indexed := True\<rparr>))
          else Some (False, s1))"

text \<open>
  The scoring loop of \<^verbatim>\<open>search_similar_documents\<close>:
  \<^verbatim>\<open>for i, (doc_vector, doc_norm) in enumerate(zip(self.tfidf.tf_idf_vectors, self.doc_norms))\<close>,
  keeping \<^verbatim>\<open>(similarity, i)\<close> where \<^verbatim>\<open>similarity > 0.01\<close>.
\<close>

definition similarity :: "real list \<Rightarrow> real \<Rightarrow> real list \<Rightarrow> real \<Rightarrow> real" where
  "similarity query_vector query_norm doc_vector doc_norm =
     (if doc_norm = 0 then 0
      else sum_list (map (\<lambda>(a, b). a * b) (zip query_vector doc_vector)) / (query_norm * doc_norm))"

definition score_documents ::
  "real list \<Rightarrow> real \<Rightarrow> real list list \<Rightarrow> real list \<Rightarrow> (real \<times> nat) list" where
  "score_documents query_vector query_norm vectors norms =
     filter (\<lambda>(sim, i). sim > 1 / 100)
       (map (\<lambda>(i, doc_vector, doc_norm). (similarity query_vector query_norm doc_vector doc_norm, i))
          (enumerate 0 (zip vectors norms)))"

text \<open>
  \<^verbatim>\<open>similarities.sort(reverse=True)\<close> on tuples \<^verbatim>\<open>(similarity, i)\<close>: a tuple is smaller
  when its score is smaller or, the scores being equal, its index is smaller. The sort is
  stable and puts the greater tuple first.
\<close>

definition tuple_less :: "real \<times> nat \<Rightarrow> real \<times> nat \<Rightarrow> bool" where
  "tuple_less a b = (fst a < fst b \<or> (fst a = fst b \<and> snd a < snd b))"

fun insert_reverse :: "real \<times> nat \<Rightarrow> (real \<times> nat) list \<Rightarrow> (real \<times> nat) list" where
  "insert_reverse x [] = [x]"
| "insert_reverse x (y # ys) = (if tuple_less x y then y # insert_reverse x ys else x # y # ys)"

definition sort_reverse :: "(real \<times> nat) list \<Rightarrow> (real \<times> nat) list" where
  "sort_reverse xs = foldr insert_reverse xs []"

text \<open>\<^verbatim>\<open>similarities[:n_results]\<close> of the sorted list.\<close>

definition rank_documents ::
  "real list \<Rightarrow> real \<Rightarrow> real list list \<Rightarrow> real list \<Rightarrow> int \<Rightarrow> (real \<times> nat) list" where
  "rank_documents query_vector query_norm vectors norms n_results =
     py_slice (sort_reverse (score_documents query_vector query_norm vectors norms)) 0 n_results"

text \<open>
  The results: \<^verbatim>\<open>self.documents[idx]\<close> raises IndexError where the list has no such
  chunk.
\<close>

definition make_result :: "chunk \<Rightarrow> real \<Rightarrow> search_result" where
  "make_result c sim =
     \<lparr>result_content = content c, result_file_name = file_name c, result_title = title c,
      result_content_type = content_type c, result_chunk_index = chunk_index c,
      similarity_score = sim\<rparr>"

fun build_results :: "chunk list \<Rightarrow> (real \<times> nat) list \<Rightarrow> py_error + search_result list" where
  "build_results docs [] = Inr []"
| "build_results docs ((sim, idx) # rest) =
     (if idx < length docs then
        (case build_results docs rest of
           Inl e \<Rightarrow> Inl e
         | Inr results \<Rightarrow> Inr (make_result (docs ! idx) sim # results))
      else Inl IndexError)"

text \<open>
  \<^verbatim>\<open>search_similar_documents\<close>: not indexed, the cache, the query vector and its norm,
  the ranking, the results, the cache again (more than 500 entries: the oldest 100
  leave). Any exception ends in \<^verbatim>\<open>return []\<close>.
\<close>

definition search_similar_documents ::
  "string \<Rightarrow> int \<Rightarrow> engine \<Rightarrow> search_result list \<times> engine" where
  "search_similar_documents query n_results s =
     (if \<not> indexed s then ([], s)
      else case map_of (similarity_cache s) (query, n_results) of
        Some results \<Rightarrow> (results, s)
      | None \<Rightarrow>
          (case transform query (tfidf s) of
             (Inl e, t) \<Rightarrow> ([], s\<lparr>tfidf := t\<rparr>)
           | (Inr query_vector, t) \<Rightarrow>
               if vector_norm query_vector = 0 then ([], s\<lparr>tfidf := t\<rparr>)
               else
                 (case build_results (documents s)
                         (rank_documents query_vector (vector_norm query_vector)
                            (tf_idf_vectors t) (doc_norms s) n_results) of
                    Inl e \<Rightarrow> ([], s\<lparr>tfidf := t\<rparr>)
                  | Inr results \<Rightarrow>
                      (let cache = AList.update (query, n_results) results (similarity_cache s)
                       in (results,
                           s\<lparr>tfidf := t,
                             similarity_cache :=
                               (if length cache > 500 then evict_oldest 100 cache else cache)\<rparr>)))))"

text \<open>
  \<^verbatim>\<open>clear_cache\<close>: \<^verbatim>\<open>self.response_cache.clear()\<close>, \<^verbatim>\<open>self.similarity_cache.clear()\<close>,
  \<^verbatim>\<open>self.tfidf._vector_cache.clear()\<close>.
\<close>

definition clear_cache :: "engine \<Rightarrow> engine" where
  "clear_cache s =
     s\<lparr>response_cache := [], similarity_cache := [], tfidf := (tfidf s)\<lparr>vector_cache := []\<rparr>\<rparr>"

section \<open>Properties of the tokenizer\<close>

lemma is_az_word: "is_az c \<Longrightarrow> is_word_char c"
  by (simp add: is_az_def is_word_char_def Let_def)

lemma az_run_le_word_run: "length (takeWhile is_az s) \<le> length (takeWhile is_word_char s)"
  by (induction s) (auto simp: is_az_word)

lemma char_at_az_run:
  "k < length (takeWhile is_az s) \<Longrightarrow> \<exists>x. char_at s k = Some x \<and> is_az x"
proof -
  assume k: "k < length (takeWhile is_az s)"
  have "length (takeWhile is_az s) \<le> length s" by (rule length_takeWhile_le)
  with k have kl: "k < length s" by simp
  have "takeWhile is_az s ! k \<in> set (takeWhile is_az s)" using k by simp
  then have "is_az (takeWhile is_az s ! k)" by (rule set_takeWhileD[THEN conjunct2])
  moreover have "takeWhile is_az s ! k = s ! k" using k by (rule takeWhile_nth)
  ultimately show ?thesis using kl by (simp add: char_at_def)
qed

lemma match_token_char:
  assumes "word_boundary prev (char_at s 0)"
  shows "match_token prev s =
     (let n = length (takeWhile is_az s) in
      if 2 \<le> n \<and> \<not> is_word_opt (char_at s n) then Some n else None)"
proof -
  let ?n = "length (takeWhile is_az s)"
  let ?P = "\<lambda>k. word_boundary (char_at s (k - 1)) (char_at s k)"
  have P: "?P k = (\<not> is_word_opt (char_at s k))" if a: "1 \<le> k" and b: "k \<le> ?n" for k
  proof -
    from a b have "k - 1 < ?n" by arith
    then obtain x where "char_at s (k - 1) = Some x" "is_az x"
      using char_at_az_run by blast
    then show ?thesis by (simp add: word_boundary_def is_word_opt_def is_az_word)
  qed
  have notP: "\<not> ?P k" if a: "2 \<le> k" and b: "k < ?n" for k
  proof -
    obtain x where "char_at s k = Some x" "is_az x" using char_at_az_run[OF b] by blast
    then have "is_word_opt (char_at s k)" by (simp add: is_word_opt_def is_az_word)
    with P[of k] a b show ?thesis by simp
  qed
  show ?thesis
  proof (cases "2 \<le> ?n")
    case False
    then have "[2 ..< Suc ?n] = []" by simp
    with False assms show ?thesis by (simp add: match_token_def)
  next
    case True
    then have r: "rev [2 ..< Suc ?n] = ?n # rev [2 ..< ?n]" by simp
    have none: "find ?P (rev [2 ..< ?n]) = None"
      using notP by (auto simp: find_None_iff)
    from True have Pn: "?P ?n = (\<not> is_word_opt (char_at s ?n))" using P[of ?n] by simp
    show ?thesis using assms True
      by (simp only: match_token_def r if_True find.simps none Pn Let_def split: if_splits) simp
  qed
qed

lemma findall_tokens_runs:
  "findall_tokens prev s =
     filter is_token (runs is_word_char (if is_word_opt prev then dropWhile is_word_char s else s))"
proof (induction s arbitrary: prev rule: length_induct)
  case (1 s)
  note IH = "1.IH"[rule_format]
  show ?case
  proof (cases s)
    case Nil
    then show ?thesis by simp
  next
    case (Cons c cs)
    let ?W = is_word_char
    let ?n = "length (takeWhile is_az s)"
    have step: "findall_tokens (Some c) cs =
        filter is_token (runs ?W (if ?W c then dropWhile ?W cs else cs))"
      using IH[of cs "Some c"] Cons by (simp add: is_word_opt_def)
    have c0: "char_at s 0 = Some c" using Cons by (simp add: char_at_def)
    show ?thesis
    proof (cases "word_boundary prev (char_at s 0) \<and> 2 \<le> ?n \<and> \<not> is_word_opt (char_at s ?n)")
      case True
      then have m: "match_token prev s = Some ?n" by (simp add: match_token_char Let_def)
      from True have "is_az c" using Cons by (cases "is_az c") auto
      then have Wc: "?W c" by (rule is_az_word)
      with True c0 have np: "\<not> is_word_opt prev" by (simp add: word_boundary_def is_word_opt_def)
      have nle: "?n \<le> length s" by (rule length_takeWhile_le)
      have tw: "takeWhile ?W s = take ?n s"
      proof (rule takeWhile_eq_take_P_nth)
        fix i assume "i < ?n" "i < length s"
        then show "?W (s ! i)" using char_at_az_run[of i s] by (auto simp: char_at_def is_az_word)
      next
        assume "?n < length s"
        with True show "\<not> ?W (s ! ?n)" by (simp add: char_at_def is_word_opt_def)
      qed
      then have ln: "length (takeWhile ?W s) = ?n" using nle by simp
      have tk: "take ?n s = takeWhile is_az s" by (simp add: takeWhile_eq_take[symmetric])
      have tok: "is_token (take ?n s)"
        using True by (simp add: tk is_token_def list_all_iff) (meson set_takeWhileD)
      have dr: "drop ?n s = dropWhile ?W s" using ln by (metis dropWhile_eq_drop)
      from True have "?n - 1 < ?n" by auto
      then obtain x where "char_at s (?n - 1) = Some x" "is_az x" using char_at_az_run by blast
      then have pw: "is_word_opt (char_at s (?n - 1))" by (simp add: is_word_opt_def is_az_word)
      from True have n2: "2 \<le> ?n" by blast
      have "length (drop ?n s) < length s" using n2 nle by simp
      from IH[OF this, of "char_at s (?n - 1)"] pw
      have rec: "findall_tokens (char_at s (?n - 1)) (drop ?n s) =
          filter is_token (runs ?W (dropWhile ?W s))"
        by (simp add: dr)
      have "findall_tokens prev s = take ?n s # findall_tokens (char_at s (?n - 1)) (drop ?n s)"
        using m Cons by simp
      also have "\<dots> = filter is_token (takeWhile ?W s # runs ?W (dropWhile ?W s))"
        using tok rec by (simp add: tw)
      also have "\<dots> = filter is_token (runs ?W s)" using Cons Wc by simp
      finally show ?thesis using np by simp
    next
      case False
      have m: "match_token prev s = None"
      proof (cases "word_boundary prev (char_at s 0)")
        case b: True
        from False b show ?thesis by (simp add: match_token_char[OF b] Let_def)
      next
        case b: False
        then show ?thesis by (simp add: match_token_def)
      qed
      then have f: "findall_tokens prev s = findall_tokens (Some c) cs" using Cons by simp
      show ?thesis
      proof (cases "?W c")
        case Wc: False
        then show ?thesis using f step Cons by simp
      next
        case Wc: True
        show ?thesis
        proof (cases "is_word_opt prev")
          case True
          then show ?thesis using f step Cons Wc by simp
        next
          case np: False
          then have b: "word_boundary prev (char_at s 0)"
            using c0 Wc by (simp add: word_boundary_def is_word_opt_def)
          have "\<not> is_token (takeWhile ?W s)"
          proof
            assume t: "is_token (takeWhile ?W s)"
            let ?m = "length (takeWhile ?W s)"
            have "takeWhile is_az s = takeWhile ?W s"
            proof -
              have "\<forall>x\<in>set (takeWhile ?W s). is_az x" using t by (simp add: is_token_def list_all_iff)
              then have "takeWhile is_az (takeWhile ?W s) = takeWhile ?W s"
                by (simp add: takeWhile_eq_all_conv)
              moreover have "takeWhile is_az (takeWhile ?W s) = takeWhile (\<lambda>x. ?W x \<and> is_az x) s"
                by (simp add: takeWhile_takeWhile)
              moreover have "(\<lambda>x. ?W x \<and> is_az x) = is_az" using is_az_word by auto
              ultimately show ?thesis by simp
            qed
            then have nm: "?n = ?m" by simp
            with t have "2 \<le> ?n" by (simp add: is_token_def)
            moreover have "\<not> is_word_opt (char_at s ?n)"
              using nth_length_takeWhile[of ?W s] by (auto simp: nm char_at_def is_word_opt_def)
            ultimately show False using False b by simp
          qed
          then show ?thesis using f step Cons Wc np by simp
        qed
      qed
    qed
  qed
qed

text \<open>
  C2 (as the code has it). \<^const>\<open>tokenize\<close> lowercases the input and returns, in order of
  occurrence, exactly the words of the lowercased text (maximal runs of word characters:
  letters, digits, underscore) that consist of a-z only and have length at least 2. A run
  of letters that touches a digit, an underscore or a letter outside a-z is dropped
  whole. \<^verbatim>\<open>tokenize("Hello WORLD 123")\<close> is \<^verbatim>\<open>("hello", "world")\<close>.
\<close>

theorem tokenize_words:
  "tokenize text = filter is_token (runs is_word_char (lower text)) \<and>
   tokenize ''Hello WORLD 123'' = [''hello'', ''world'']"
proof
  show "tokenize text = filter is_token (runs is_word_char (lower text))"
    by (simp add: tokenize_def findall_tokens_runs is_word_opt_def)
  show "tokenize ''Hello WORLD 123'' = [''hello'', ''world'']"
    by code_simp
qed

text \<open>
  C2 as stated fails: in \<^verbatim>\<open>abc123\<close> the maximal run of lowercase letters is
  \<^verbatim>\<open>abc\<close>, but no \<^verbatim>\<open>\b\<close> separates it from the digits and the pattern finds nothing.
\<close>

theorem tokenize_run_before_digit_counterexample:
  "tokenize ''abc123'' = [] \<and> spec_tokenize ''abc123'' = [''abc'']"
  by code_simp

section \<open>Properties of the chunker\<close>

lemma best_break_cases:
  "best_break ses start cs e0 = e0 \<or>
   (start + cs div 2 < best_break ses start cs e0 \<and> best_break ses start cs e0 \<le> e0)"
proof -
  let ?f = "\<lambda>se bb. if start + cs div 2 < se \<and> se \<le> e0 then se else bb"
  have "fold ?f ses b = e0 \<or> (start + cs div 2 < fold ?f ses b \<and> fold ?f ses b \<le> e0)"
    if "b = e0 \<or> (start + cs div 2 < b \<and> b \<le> e0)" for b
    using that by (induction ses arbitrary: b) auto
  then show ?thesis by (simp add: best_break_def)
qed

text \<open>
  Each round moves \<open>start\<close> forward when the overlap is at most half the chunk size: a
  sentence break lies behind \<open>start + chunk_size div 2\<close>, the raw end at
  \<open>start + chunk_size\<close>.
\<close>

lemma chunk_loop_terminates:
  assumes cs: "1 \<le> chunk_size" and ov: "overlap \<le> chunk_size div 2"
  shows "\<exists>r. chunk_loop t ses chunk_size overlap start chunks = Some r"
proof (induction "nat (int (length t) - start)" arbitrary: start chunks rule: less_induct)
  case less
  show ?case
  proof (cases "start < int (length t)")
    case False
    then show ?thesis by (subst chunk_loop.simps) simp
  next
    case True
    define end0 where "end0 = start + chunk_size"
    define end1 where "end1 = (if end0 < int (length t)
                    then best_break ses start chunk_size end0 else end0)"
    have "end1 = end0 \<or> (start + chunk_size div 2 < end1 \<and> end1 \<le> end0)"
      using best_break_cases[of ses start chunk_size end0] by (auto simp: end1_def)
    then have prog: "start < end1 - overlap" using cs ov by (auto simp: end0_def)
    then have "nat (int (length t) - (end1 - overlap)) < nat (int (length t) - start)"
      using True by simp
    from less[OF this] have
      "\<exists>r. chunk_loop t ses chunk_size overlap (end1 - overlap) c = Some r" for c by blast
    then show ?thesis
      using True by (subst chunk_loop.simps) (simp add: Let_def end0_def[symmetric] end1_def[symmetric])
  qed
qed

text \<open>
  C6 (as the code has it). The chunker has no guard on its parameters. It returns for
  every text when \<open>chunk_size \<ge> 1\<close> and \<open>overlap \<le> chunk_size div 2\<close>, which the defaults
  1000 and 200 satisfy.
\<close>

theorem optimized_chunk_text_terminates:
  assumes "1 \<le> chunk_size" and "overlap \<le> chunk_size div 2"
  shows "\<exists>chunks. optimized_chunk_text t chunk_size overlap = Some chunks"
  using chunk_loop_terminates[OF assms] by (simp add: optimized_chunk_text_def)

theorem optimized_chunk_text_terminates_witness:
  "(1::int) \<le> 2 \<and> (1::int) \<le> 2 div 2 \<and> (\<exists>chunks. optimized_chunk_text ''abc'' 2 1 = Some chunks)"
  using optimized_chunk_text_terminates[of 2 1 "''abc''"] by simp

text \<open>
  C6 as stated fails: with \<open>overlap = chunk_size = 2\<close> and a text of three characters
  the window starts at 0 again after every round.
\<close>

lemma strip_slice_abc: "strip (py_slice ''abc'' 0 2) = ''ab''"
  by code_simp

lemma sentence_ends_abc: "sentence_ends_from 0 ''abc'' = []"
  by code_simp

lemma chunk_loop_stuck_aux:
  assumes "chunk_loop t ses cs ov start chunks = Some r"
  shows "\<not> (t = ''abc'' \<and> ses = [] \<and> cs = 2 \<and> ov = 2 \<and> start = 0)"
proof (rule chunk_loop.raw_induct[where P = "\<lambda>t ses cs ov start chunks r.
    \<not> (t = ''abc'' \<and> ses = [] \<and> cs = 2 \<and> ov = 2 \<and> start = 0)", OF _ assms], goal_cases)
  case (1 f t ses cs ov start chunks r)
  show ?case
  proof
    assume a: "t = ''abc'' \<and> ses = [] \<and> cs = 2 \<and> ov = 2 \<and> start = 0"
    from 1(2) have "f ''abc'' [] 2 2 0 (chunks @ [''ab'']) = Some r"
      unfolding a[THEN conjunct1] a[THEN conjunct2, THEN conjunct1]
      using a by (simp add: Let_def best_break_def strip_slice_abc)
    with 1(1) show False by blast
  qed
qed

lemma chunk_loop_stuck: "chunk_loop ''abc'' [] 2 2 0 chunks = None"
  using chunk_loop_stuck_aux[of "''abc''" "[]" 2 2 0 chunks]
  by (cases "chunk_loop ''abc'' [] 2 2 0 chunks") auto

theorem optimized_chunk_text_overlap_counterexample:
  "optimized_chunk_text ''abc'' 2 2 = None"
  unfolding optimized_chunk_text_def sentence_ends_abc by (simp add: chunk_loop_stuck)

text \<open>
  The sliding-window path: every chunk it returns is a trimmed slice of the text and is
  not empty.
\<close>

lemma chunk_loop_chunks_nonempty:
  assumes "chunk_loop t ses cs ov start chunks = Some r"
  shows "(\<forall>c\<in>set chunks. c \<noteq> [] \<and> (\<exists>lo hi. c = strip (py_slice t lo hi))) \<longrightarrow>
         (\<forall>c\<in>set r. c \<noteq> [] \<and> (\<exists>lo hi. c = strip (py_slice t lo hi)))"
proof (rule chunk_loop.raw_induct[where P = "\<lambda>t ses cs ov start chunks r.
    (\<forall>c\<in>set chunks. c \<noteq> [] \<and> (\<exists>lo hi. c = strip (py_slice t lo hi))) \<longrightarrow>
    (\<forall>c\<in>set r. c \<noteq> [] \<and> (\<exists>lo hi. c = strip (py_slice t lo hi)))", OF _ assms], goal_cases)
  case (1 f t ses cs ov start chunks r)
  show ?case
  proof
    assume a: "\<forall>c\<in>set chunks. c \<noteq> [] \<and> (\<exists>lo hi. c = strip (py_slice t lo hi))"
    show "\<forall>c\<in>set r. c \<noteq> [] \<and> (\<exists>lo hi. c = strip (py_slice t lo hi))"
    proof (cases "start < int (length t)")
      case False
      with 1(2) a show ?thesis by simp
    next
      case True
      define end1 where "end1 = (if start + cs < int (length t)
                    then best_break ses start cs (start + cs) else start + cs)"
      define chunk where "chunk = strip (py_slice t start end1)"
      from 1(2) True have f: "f t ses cs ov (end1 - ov) (if chunk \<noteq> [] then chunks @ [chunk] else chunks) = Some r"
        by (auto simp: Let_def end1_def chunk_def split: if_splits)
      have "\<forall>c\<in>set (if chunk \<noteq> [] then chunks @ [chunk] else chunks).
              c \<noteq> [] \<and> (\<exists>lo hi. c = strip (py_slice t lo hi))"
        using a by (auto simp: chunk_def)
      with 1(1)[OF f] show ?thesis by blast
    qed
  qed
qed

lemma optimized_chunk_text_long_trimmed:
  assumes "optimized_chunk_text t cs ov = Some r" and "cs < int (length t)"
  shows "\<forall>c\<in>set r. c \<noteq> [] \<and> (\<exists>lo hi. c = strip (py_slice t lo hi))"
  using assms chunk_loop_chunks_nonempty[of t "sentence_ends_from 0 t" cs ov 0 "[]" r]
  by (simp add: optimized_chunk_text_def)

text \<open>
  C5 (the code at the failing inputs). A text no longer than the chunk size is returned
  as it is: not trimmed, and also when nothing is left of it after trimming.
\<close>

theorem optimized_chunk_text_short_untrimmed:
  "optimized_chunk_text '' a '' 1000 200 = Some ['' a ''] \<and> strip '' a '' = ''a'' \<and>
   optimized_chunk_text [] 1000 200 = Some [[]] \<and> strip [] = []"
proof -
  have "strip '' a '' = ''a''" by code_simp
  moreover have "strip [] = []" by (simp add: strip_def)
  ultimately show ?thesis by (simp add: optimized_chunk_text_def)
qed
section \<open>Properties of fit and transform\<close>

text \<open>
  A model is fitted to a list of texts when its vectors are, text by text, what the loop
  of \<^verbatim>\<open>fit\<close> computes from its vocabulary and IDF table. \<^verbatim>\<open>fit\<close> writes such a model
  to the cache file; a vectorizer whose cache file holds one (or that has none) is what
  the program can reach.
\<close>

definition fitted :: "string list \<Rightarrow> 'a model_scheme \<Rightarrow> bool" where
  "fitted docs m =
     list_all2
       (\<lambda>doc vector.
          fit_vector (vocabulary m) (idf_values m) (compute_tf (tokenize doc))
            (replicate (length (vocabulary m)) 0) = Inr vector)
       docs (tf_idf_vectors m)"

definition cache_file_ok :: "tfidf \<Rightarrow> bool" where
  "cache_file_ok t = (case cache_file t of None \<Rightarrow> True | Some (docs, m) \<Rightarrow> fitted docs m)"

lemma fit_vector_transform_vector:
  "fit_vector vocab idf tf vector = Inr v \<Longrightarrow> transform_vector vocab idf tf vector = Inr v"
  by (induction vocab idf tf vector rule: fit_vector.induct) (auto split: option.splits if_splits)

lemma fit_vectors_fitted:
  "fit_vectors vocab idf all_tokens acc = (None, vectors) \<Longrightarrow>
   \<exists>new. vectors = acc @ new \<and>
     list_all2 (\<lambda>tokens vector.
       fit_vector vocab idf (compute_tf tokens) (replicate (length vocab) 0) = Inr vector)
       all_tokens new"
proof (induction all_tokens arbitrary: acc)
  case Nil
  then show ?case by simp
next
  case (Cons tokens rest)
  then obtain v where v: "fit_vector vocab idf (compute_tf tokens) (replicate (length vocab) 0) = Inr v"
    and r: "fit_vectors vocab idf rest (acc @ [v]) = (None, vectors)"
    by (auto split: sum.splits)
  from Cons.IH[OF r] obtain new where "vectors = (acc @ [v]) @ new"
    "list_all2 (\<lambda>tokens vector.
       fit_vector vocab idf (compute_tf tokens) (replicate (length vocab) 0) = Inr vector) rest new"
    by blast
  with v show ?case by (intro exI[of _ "v # new"]) simp
qed

lemma fit_compute_fitted:
  assumes "fit_compute docs t = (None, t')"
  shows "fitted docs t' \<and> cache_file t' = Some (docs, model.truncate t') \<and>
         vector_cache t' = vector_cache t"
proof -
  let ?toks = "map tokenize docs"
  let ?V = "build_vocabulary ?toks"
  let ?df = "count_document_frequencies ?toks (document_frequencies t)"
  obtain e1 idf where i: "compute_idf (length docs) ?df (idf_values t) = (e1, idf)"
    by (cases "compute_idf (length docs) ?df (idf_values t)")
  obtain e2 vs where f: "fit_vectors ?V idf ?toks [] = (e2, vs)"
    by (cases "fit_vectors ?V idf ?toks []")
  from assms i f have e: "e1 = None" "e2 = None"
    by (auto simp: fit_compute_def Let_def split: option.splits)
  from assms i f e have t': "vocabulary t' = ?V" "idf_values t' = idf" "tf_idf_vectors t' = vs"
    "vector_cache t' = vector_cache t"
    by (auto simp: fit_compute_def Let_def)
  from assms i f e have c: "cache_file t' = Some (docs, model.truncate t')"
    by (auto simp: fit_compute_def Let_def model.truncate_def)
  from fit_vectors_fitted[of ?V idf ?toks "[]" vs] f e
  have "list_all2 (\<lambda>tokens vector.
       fit_vector ?V idf (compute_tf tokens) (replicate (length ?V) 0) = Inr vector) ?toks vs"
    by simp
  then have "fitted docs t'"
    by (simp add: fitted_def t' list_all2_map1)
  with c t' show ?thesis by simp
qed


lemma fitted_cong:
  "vocabulary m = vocabulary m' \<Longrightarrow> idf_values m = idf_values m' \<Longrightarrow>
   tf_idf_vectors m = tf_idf_vectors m' \<Longrightarrow> fitted docs m = fitted docs m'"
  by (simp add: fitted_def)

lemma fit_fitted:
  assumes ok: "cache_file_ok t" and f: "fit docs t = (None, t')"
  shows "fitted docs t' \<and> cache_file_ok t' \<and> vector_cache t' = vector_cache t"
proof (cases "\<exists>m. cache_file t = Some (docs, m)")
  case True
  then obtain m where m: "cache_file t = Some (docs, m)" by blast
  with f have t': "t' = t\<lparr>vocabulary := vocabulary m,
                         document_frequencies := document_frequencies m,
                         tfidf_documents := tfidf_documents m,
                         tf_idf_vectors := tf_idf_vectors m,
                         idf_values := idf_values m\<rparr>"
    by (simp add: fit_def)
  from ok m have fm: "fitted docs m" by (simp add: cache_file_ok_def)
  have "fitted docs t' = fitted docs m" by (rule fitted_cong) (simp_all add: t')
  with fm ok m show ?thesis by (simp add: t' cache_file_ok_def)
next
  case False
  with f have c: "fit_compute docs t = (None, t')"
    by (auto simp: fit_def split: option.splits if_splits)
  from fit_compute_fitted[OF c] have a: "fitted docs t'"
    and b: "cache_file t' = Some (docs, model.truncate t')"
    and v: "vector_cache t' = vector_cache t" by blast+
  have "fitted docs (model.truncate t') = fitted docs t'"
    by (rule fitted_cong) (simp_all add: model.truncate_def)
  with a b v show ?thesis by (simp add: cache_file_ok_def)
qed

lemma compute_idf_ok:
  "0 < n \<Longrightarrow> fst (compute_idf n df idf) = None \<and>
     fst ` set (snd (compute_idf n df idf)) = fst ` set idf \<union> fst ` set df"
  by (induction n df idf rule: compute_idf.induct) (auto simp: dom_update)

lemma set_uniq: "set (uniq xs) = set xs"
  by (simp add: uniq_def)

lemma count_tokens_keys:
  "fst ` set (fold (\<lambda>token df. AList.update token (f df token) df) tokens df) =
     fst ` set df \<union> set tokens"
  by (induction tokens arbitrary: df) (auto simp: dom_update)

lemma count_document_frequencies_keys:
  "fst ` set (count_document_frequencies all_tokens df) = fst ` set df \<union> set (concat all_tokens)"
  unfolding count_document_frequencies_def
  by (induction all_tokens arbitrary: df) (auto simp: count_tokens_keys set_uniq)

lemma build_vocabulary_index:
  "map_of (build_vocabulary all_tokens) token = Some i \<Longrightarrow> i < length (build_vocabulary all_tokens)"
  by (auto simp: build_vocabulary_def Let_def dest!: map_of_SomeD set_zip_rightD)

lemma compute_tf_keys: "fst ` set (compute_tf tokens) \<subseteq> set tokens"
  by (auto simp: compute_tf_def set_uniq)

lemma fit_vector_ok:
  assumes "\<And>token i. token \<in> fst ` set tf \<Longrightarrow> map_of vocab token = Some i \<Longrightarrow>
             i < length vector \<and> token \<in> fst ` set idf"
  shows "\<exists>v. fit_vector vocab idf tf vector = Inr v \<and> length v = length vector"
  using assms
proof (induction vocab idf tf vector rule: fit_vector.induct)
  case (1 vocab idf vector)
  then show ?case by simp
next
  case (2 vocab idf token tf_score rest vector)
  have sub: "i < length vector \<and> token' \<in> fst ` set idf"
    if "token' \<in> fst ` set rest" and "map_of vocab token' = Some i" for token' i
    using "2.prems"[of token' i] that by auto
  show ?case
  proof (cases "map_of vocab token")
    case None
    have "\<exists>v. fit_vector vocab idf rest vector = Inr v \<and> length v = length vector"
      by (rule "2.IH"(1)[OF None]) (rule sub)
    with None show ?thesis by simp
  next
    case (Some i)
    with "2.prems"[of token i] have i: "i < length vector" and k: "token \<in> fst ` set idf" by auto
    from k obtain w where w: "map_of idf token = Some w"
      by (metis domD dom_map_of_conv_image_fst)
    have "\<exists>v. fit_vector vocab idf rest (vector[i := tf_score * w]) = Inr v \<and>
               length v = length (vector[i := tf_score * w])"
      by (rule "2.IH"(2)[OF Some w i]) (use sub in auto)
    with Some w i show ?thesis by simp
  qed
qed

lemma fit_vectors_ok:
  assumes "\<And>token i. map_of vocab token = Some i \<Longrightarrow> i < length vocab"
    and "set (concat all_tokens) \<subseteq> fst ` set idf"
  shows "fst (fit_vectors vocab idf all_tokens acc) = None"
  using assms(2)
proof (induction all_tokens arbitrary: acc)
  case Nil
  then show ?case by simp
next
  case (Cons tokens rest)
  have "\<exists>v. fit_vector vocab idf (compute_tf tokens) (replicate (length vocab) 0) = Inr v \<and>
             length v = length (replicate (length vocab) (0::real))"
  proof (rule fit_vector_ok)
    fix token i
    assume "token \<in> fst ` set (compute_tf tokens)" "map_of vocab token = Some i"
    with compute_tf_keys[of tokens] Cons.prems assms(1)[of token i]
    show "i < length (replicate (length vocab) (0::real)) \<and> token \<in> fst ` set idf" by auto
  qed
  then obtain v where "fit_vector vocab idf (compute_tf tokens) (replicate (length vocab) 0) = Inr v"
    by blast
  with Cons show ?case by simp
qed

lemma fit_compute_total:
  assumes "docs \<noteq> []"
  shows "fst (fit_compute docs t) = None"
proof -
  let ?toks = "map tokenize docs"
  let ?V = "build_vocabulary ?toks"
  let ?df = "count_document_frequencies ?toks (document_frequencies t)"
  obtain e1 idf where i: "compute_idf (length docs) ?df (idf_values t) = (e1, idf)"
    by (cases "compute_idf (length docs) ?df (idf_values t)")
  from assms have "0 < length docs" by simp
  from compute_idf_ok[OF this, of ?df "idf_values t"] i
  have e1: "e1 = None" and keys: "fst ` set idf = fst ` set (idf_values t) \<union> fst ` set ?df" by auto
  have "set (concat ?toks) \<subseteq> fst ` set idf"
    by (auto simp: keys count_document_frequencies_keys)
  then have "fst (fit_vectors ?V idf ?toks []) = None"
    by (intro fit_vectors_ok build_vocabulary_index)
  then obtain vs where f: "fit_vectors ?V idf ?toks [] = (None, vs)"
    by (cases "fit_vectors ?V idf ?toks []") auto
  show ?thesis using i e1 f by (simp add: fit_compute_def Let_def)
qed

lemma fit_total: "docs \<noteq> [] \<Longrightarrow> fst (fit docs t) = None"
  by (auto simp: fit_def fit_compute_total split: option.splits)

lemma transform_miss:
  assumes "map_of (vector_cache t) text = None"
  shows "fst (transform text t) = query_tfidf t text"
  using assms by (auto simp: transform_def Let_def split: sum.splits)

text \<open>
  C8 (as the code has it). \<^verbatim>\<open>transform\<close> reads \<^verbatim>\<open>_vector_cache\<close> before it computes
  anything, and \<^verbatim>\<open>fit\<close> leaves that cache alone. After \<^verbatim>\<open>fit(corpus)\<close> has returned,
  \<^verbatim>\<open>transform\<close> of a text of the corpus returns exactly the vector stored for it,
  provided the vector cache holds no entry for the text.
\<close>

theorem transform_reproduces_fit:
  assumes "cache_file_ok t" and "fit corpus t = (None, t')"
    and "i < length corpus" and "map_of (vector_cache t') (corpus ! i) = None"
  shows "fst (transform (corpus ! i) t') = Inr (tf_idf_vectors t' ! i)"
proof -
  from fit_fitted[OF assms(1,2)] have "fitted corpus t'" by blast
  with assms(3) have
    "fit_vector (vocabulary t') (idf_values t') (compute_tf (tokenize (corpus ! i)))
       (replicate (length (vocabulary t')) 0) = Inr (tf_idf_vectors t' ! i)"
    by (simp add: fitted_def list_all2_conv_all_nth)
  then have "query_tfidf t' (corpus ! i) = Inr (tf_idf_vectors t' ! i)"
    unfolding query_tfidf_def by (rule fit_vector_transform_vector)
  with assms(4) show ?thesis by (simp add: transform_miss)
qed

lemma tokenize_cat: "tokenize ''cat'' = [''cat'']" by code_simp
lemma tokenize_dog: "tokenize ''dog'' = [''dog'']" by code_simp
lemma vocab_cat_dog: "build_vocabulary [[''cat''], [''dog'']] = [(''cat'', 0), (''dog'', 1)]"
  by code_simp
lemma df_cat_dog: "count_document_frequencies [[''cat''], [''dog'']] [] = [(''cat'', 1), (''dog'', 1)]"
  by code_simp

lemma compute_tf_single: "compute_tf [w] = [(w, 1)]"
  by (simp add: compute_tf_def uniq_def)

lemma transform_hit:
  "map_of (vector_cache t) text = Some v \<Longrightarrow> transform text t = (Inr v, t)"
  by (simp add: transform_def)

lemma transform_cat_new:
  "transform ''cat'' new_tfidf =
     (Inr [], new_tfidf\<lparr>tokenize_cache := [(''cat'', [''cat''])], vector_cache := [(''cat'', [])]\<rparr>)"
  by (simp add: transform_def query_tfidf_def new_tfidf_def tokenize_cat compute_tf_single
      lru_touch_def)

lemma fit_cat_dog:
  assumes "cache_file t = None" "document_frequencies t = []" "idf_values t = []"
  shows "fst (fit [''cat'', ''dog''] t) = None \<and>
         tf_idf_vectors (snd (fit [''cat'', ''dog''] t)) = [[ln 2, 0], [0, ln 2]] \<and>
         vector_cache (snd (fit [''cat'', ''dog''] t)) = vector_cache t"
  using assms
  by (simp add: fit_def fit_compute_def tokenize_cat tokenize_dog vocab_cat_dog df_cat_dog
      compute_tf_single Let_def)

text \<open>
  C8 as stated fails: a text transformed before the fit keeps its old vector. Here
  \<^verbatim>\<open>transform("cat")\<close> on a new vectorizer caches the empty vector, and after
  \<^verbatim>\<open>fit(["cat", "dog"])\<close> it is still what \<^verbatim>\<open>transform("cat")\<close> returns.
\<close>

theorem transform_stale_counterexample:
  "fst (fit [''cat'', ''dog''] (snd (transform ''cat'' new_tfidf))) = None \<and>
   tf_idf_vectors (snd (fit [''cat'', ''dog''] (snd (transform ''cat'' new_tfidf)))) =
     [[ln 2, 0], [0, ln 2]] \<and>
   fst (transform ''cat'' (snd (fit [''cat'', ''dog''] (snd (transform ''cat'' new_tfidf))))) =
     Inr []"
proof -
  let ?t1 = "snd (transform ''cat'' new_tfidf)"
  have t1: "cache_file ?t1 = None" "document_frequencies ?t1 = []" "idf_values ?t1 = []"
    "vector_cache ?t1 = [(''cat'', [])]"
    unfolding transform_cat_new by (simp_all add: new_tfidf_def)
  note f = fit_cat_dog[OF t1(1-3)]
  have "map_of (vector_cache (snd (fit [''cat'', ''dog''] ?t1))) ''cat'' = Some []"
    using f t1(4) by simp
  then have "fst (transform ''cat'' (snd (fit [''cat'', ''dog''] ?t1))) = Inr []"
    by (simp add: transform_hit)
  with f show ?thesis by simp
qed

theorem transform_reproduces_fit_witness:
  "cache_file_ok new_tfidf \<and>
   fit [''cat'', ''dog''] new_tfidf = (None, snd (fit [''cat'', ''dog''] new_tfidf)) \<and>
   (0::nat) < length [''cat'', ''dog''] \<and>
   map_of (vector_cache (snd (fit [''cat'', ''dog''] new_tfidf))) ([''cat'', ''dog''] ! 0) = None \<and>
   fst (transform ([''cat'', ''dog''] ! 0) (snd (fit [''cat'', ''dog''] new_tfidf))) =
     Inr (tf_idf_vectors (snd (fit [''cat'', ''dog''] new_tfidf)) ! 0)"
proof -
  have ok: "cache_file_ok new_tfidf" by (simp add: cache_file_ok_def new_tfidf_def)
  have f: "fit [''cat'', ''dog''] new_tfidf = (None, snd (fit [''cat'', ''dog''] new_tfidf))"
    using fit_total[of "[''cat'', ''dog'']" new_tfidf] by (simp add: prod_eq_iff)
  have m: "map_of (vector_cache (snd (fit [''cat'', ''dog''] new_tfidf))) ([''cat'', ''dog''] ! 0) = None"
    using fit_fitted[OF ok f] by (simp add: new_tfidf_def)
  from transform_reproduces_fit[OF ok f _ m] ok f m show ?thesis by simp
qed

section \<open>Properties of indexing and search\<close>

lemma store_chunk_frame:
  "store_chunk doc ic (s, texts, k) = (s', texts', k') \<Longrightarrow>
     tfidf s' = tfidf s \<and> response_cache s' = response_cache s \<and>
     similarity_cache s' = similarity_cache s \<and> indexed s' = indexed s \<and>
     doc_norms s' = doc_norms s \<and>
     length (documents s') = Suc (length (documents s)) \<and> length texts' = Suc (length texts)"
  by (cases ic) (auto simp: store_chunk_def)

lemma fold_store_chunk_frame:
  "fold (store_chunk doc) ics (s, texts, k) = (s', texts', k') \<Longrightarrow>
     tfidf s' = tfidf s \<and> response_cache s' = response_cache s \<and>
     similarity_cache s' = similarity_cache s \<and> indexed s' = indexed s \<and>
     doc_norms s' = doc_norms s \<and>
     length (documents s') = length (documents s) + length ics \<and>
     length texts' = length texts + length ics"
proof (induction ics arbitrary: s texts k)
  case Nil
  then show ?case by simp
next
  case (Cons ic ics)
  obtain s1 texts1 k1 where a: "store_chunk doc ic (s, texts, k) = (s1, texts1, k1)"
    by (cases "store_chunk doc ic (s, texts, k)")
  with Cons.prems have "fold (store_chunk doc) ics (s1, texts1, k1) = (s', texts', k')" by simp
  from Cons.IH[OF this] store_chunk_frame[OF a] show ?case by simp
qed

lemma store_documents_frame:
  "store_documents docs (s, texts, k) = Some (s', texts', k') \<Longrightarrow>
     tfidf s' = tfidf s \<and> response_cache s' = response_cache s \<and>
     similarity_cache s' = similarity_cache s \<and> indexed s' = indexed s \<and>
     doc_norms s' = doc_norms s \<and>
     length (documents s') + length texts = length (documents s) + length texts'"
proof (induction docs arbitrary: s texts k)
  case Nil
  then show ?case by simp
next
  case (Cons doc docs)
  from Cons.prems obtain chunks where c: "optimized_chunk_text (content doc) 1000 200 = Some chunks"
    by (auto split: option.splits)
  obtain s1 texts1 k1 where
    a: "fold (store_chunk doc) (enumerate 0 chunks) (s, texts, k) = (s1, texts1, k1)"
    by (cases "fold (store_chunk doc) (enumerate 0 chunks) (s, texts, k)")
  with Cons.prems c have "store_documents docs (s1, texts1, k1) = Some (s', texts', k')" by simp
  from Cons.IH[OF this] fold_store_chunk_frame[OF a] show ?case by simp
qed

lemma optimized_chunk_text_default_returns:
  "\<exists>chunks. optimized_chunk_text t 1000 200 = Some chunks"
  using chunk_loop_terminates[of 1000 200 t "sentence_ends_from 0 t" 0 "[]"]
  by (simp add: optimized_chunk_text_def)

lemma store_documents_returns: "\<exists>r. store_documents docs acc = Some r"
proof (induction docs arbitrary: acc)
  case Nil
  then show ?case by (simp del: split_paired_Ex)
next
  case (Cons doc docs)
  obtain chunks where "optimized_chunk_text (content doc) 1000 200 = Some chunks"
    using optimized_chunk_text_default_returns[of "content doc"] by auto
  then show ?case using Cons[of "fold (store_chunk doc) (enumerate 0 chunks) acc"]
    by (simp del: split_paired_Ex)
qed

lemma store_documents_no_chunks:
  "\<forall>doc\<in>set docs. optimized_chunk_text (content doc) 1000 200 = Some [] \<Longrightarrow>
   store_documents docs acc = Some acc"
  by (induction docs) simp_all

lemma index_documents_returns: "\<exists>ok s'. index_documents docs s = Some (ok, s')"
proof -
  obtain s1 texts k where
    "store_documents docs (s\<lparr>db_rows := [], documents := []\<rparr>, [], 0) = Some (s1, texts, k)"
    using store_documents_returns[of docs "(s\<lparr>db_rows := [], documents := []\<rparr>, [], 0)"]
    by (metis prod_cases3)
  then show ?thesis
    by (cases "fit texts (tfidf s1)") (auto simp: index_documents_def split: option.splits)
qed

text \<open>
  As many vectors and norms as chunks in memory: the state a successful
  \<^verbatim>\<open>index_documents\<close> leaves, and which searching and clearing the caches keep.
\<close>

definition index_consistent :: "engine \<Rightarrow> bool" where
  "index_consistent s =
     (length (tf_idf_vectors (tfidf s)) = length (documents s) \<and>
      length (doc_norms s) = length (documents s))"

lemma index_documents_success:
  assumes ok: "cache_file_ok (tfidf s)" and i: "index_documents docs s = Some (True, s')"
  shows "index_consistent s' \<and> indexed s' \<and> cache_file_ok (tfidf s') \<and>
         similarity_cache s' = similarity_cache s \<and> response_cache s' = response_cache s \<and>
         vector_cache (tfidf s') = vector_cache (tfidf s)"
proof -
  from i obtain s1 texts k where
    st: "store_documents docs (s\<lparr>db_rows := [], documents := []\<rparr>, [], 0) = Some (s1, texts, k)"
    by (auto simp: index_documents_def split: option.splits)
  from store_documents_frame[OF st] have fr: "tfidf s1 = tfidf s"
    "similarity_cache s1 = similarity_cache s" "response_cache s1 = response_cache s"
    "length (documents s1) = length texts"
    by simp_all
  from i st obtain t where f: "fit texts (tfidf s1) = (None, t)"
    and s': "s' = s1\<lparr>tfidf := t, doc_norms := map vector_norm (tf_idf_vectors t), indexed := True\<rparr>"
    by (auto simp: index_documents_def split: if_splits option.splits prod.splits)
  from ok fr have "cache_file_ok (tfidf s1)" by simp
  from fit_fitted[OF this f] have "fitted texts t" "cache_file_ok t"
    "vector_cache t = vector_cache (tfidf s)" using fr by simp_all
  moreover from \<open>fitted texts t\<close> have "length (tf_idf_vectors t) = length texts"
    by (simp add: fitted_def list_all2_lengthD)
  ultimately show ?thesis using fr by (simp add: s' index_consistent_def)
qed

text \<open>
  C3 (as the code has it). When no chunk results from the documents,
  \<^verbatim>\<open>index_documents\<close> returns False; by then it has deleted the persisted chunk records
  (and committed that) and emptied the list of chunks in memory. The fitted model, the
  norms, the flag \<^verbatim>\<open>indexed\<close> and the caches are as before the call.
\<close>

theorem index_documents_no_chunks:
  assumes "\<forall>doc\<in>set docs. optimized_chunk_text (content doc) 1000 200 = Some []"
  shows "index_documents docs s = Some (False, s\<lparr>db_rows := [], documents := []\<rparr>)"
  using store_documents_no_chunks[OF assms] by (simp add: index_documents_def)

lemma tuple_less_total: "a \<noteq> b \<Longrightarrow> \<not> tuple_less a b \<Longrightarrow> tuple_less b a"
  by (cases a; cases b) (auto simp: tuple_less_def)

lemma tuple_less_trans: "tuple_less a b \<Longrightarrow> tuple_less b c \<Longrightarrow> tuple_less a c"
  by (auto simp: tuple_less_def)

lemma not_tuple_less_trans:
  "\<not> tuple_less a b \<Longrightarrow> \<not> tuple_less b c \<Longrightarrow> \<not> tuple_less a c"
  by (cases a; cases b; cases c) (auto simp: tuple_less_def)

lemma tuple_less_asym: "tuple_less a b \<Longrightarrow> \<not> tuple_less b a"
  by (auto simp: tuple_less_def)

lemma set_insert_reverse: "set (insert_reverse x ys) = insert x (set ys)"
  by (induction ys) auto

lemma set_sort_reverse: "set (sort_reverse xs) = set xs"
  by (induction xs) (auto simp: sort_reverse_def set_insert_reverse)

lemma distinct_insert_reverse: "distinct (insert_reverse x ys) = (x \<notin> set ys \<and> distinct ys)"
  by (induction ys) (auto simp: set_insert_reverse)

lemma distinct_sort_reverse: "distinct (sort_reverse xs) = distinct xs"
  by (induction xs) (auto simp: sort_reverse_def distinct_insert_reverse set_sort_reverse[unfolded sort_reverse_def])

lemma sorted_insert_reverse:
  "sorted_wrt (\<lambda>a b. \<not> tuple_less a b) ys \<Longrightarrow>
   sorted_wrt (\<lambda>a b. \<not> tuple_less a b) (insert_reverse x ys)"
proof (induction ys)
  case Nil
  then show ?case by simp
next
  case (Cons y ys)
  show ?case
  proof (cases "tuple_less x y")
    case True
    then have "\<not> tuple_less y x" by (rule tuple_less_asym)
    with Cons True show ?thesis by (auto simp: set_insert_reverse)
  next
    case False
    with Cons.prems show ?thesis using not_tuple_less_trans[OF False] by auto
  qed
qed

lemma sorted_sort_reverse: "sorted_wrt (\<lambda>a b. \<not> tuple_less a b) (sort_reverse xs)"
  by (induction xs) (simp_all add: sort_reverse_def sorted_insert_reverse)

lemma sorted_wrt_distinct_strict:
  "sorted_wrt (\<lambda>a b. \<not> tuple_less a b) xs \<Longrightarrow> distinct xs \<Longrightarrow>
   sorted_wrt (\<lambda>a b. tuple_less b a) xs"
  by (induction xs) (auto intro: tuple_less_total)

lemma py_slice_take: "py_slice xs 0 n = take (slice_index (length xs) n) xs"
  by (simp add: py_slice_def slice_index_def)

lemma slice_index_le: "0 \<le> n \<Longrightarrow> slice_index m n \<le> nat n"
  by (simp add: slice_index_def)

lemma score_documents_member:
  assumes "(sim, i) \<in> set (score_documents query_vector query_norm vectors norms)"
  shows "i < length vectors \<and> i < length norms \<and> 1 / 100 < sim"
  using assms by (auto simp: score_documents_def in_set_enumerate_eq)

lemma distinct_score_documents:
  "distinct (score_documents query_vector query_norm vectors norms)"
proof -
  let ?f = "\<lambda>(i, doc_vector, doc_norm). (similarity query_vector query_norm doc_vector doc_norm, i)"
  have "map snd (map ?f (enumerate 0 (zip vectors norms))) = [0 ..< length (zip vectors norms)]"
    by (simp add: comp_def split_def)
  then have "distinct (map snd (map ?f (enumerate 0 (zip vectors norms))))"
    by (simp only: distinct_upt)
  then have "distinct (map ?f (enumerate 0 (zip vectors norms)))"
    by (simp only: distinct_map[of snd])
  then show ?thesis unfolding score_documents_def by (rule distinct_filter)
qed


lemma rank_documents_facts:
  "set (rank_documents query_vector query_norm vectors norms n) \<subseteq>
     set (score_documents query_vector query_norm vectors norms) \<and>
   sorted_wrt (\<lambda>a b. tuple_less b a) (rank_documents query_vector query_norm vectors norms n) \<and>
   (0 \<le> n \<longrightarrow> length (rank_documents query_vector query_norm vectors norms n) \<le> nat n)"
proof -
  let ?sc = "score_documents query_vector query_norm vectors norms"
  let ?k = "slice_index (length (sort_reverse ?sc)) n"
  have r: "rank_documents query_vector query_norm vectors norms n = take ?k (sort_reverse ?sc)"
    by (simp add: rank_documents_def py_slice_take)
  have "sorted_wrt (\<lambda>a b. tuple_less b a) (sort_reverse ?sc)"
    by (rule sorted_wrt_distinct_strict)
       (simp_all add: sorted_sort_reverse distinct_sort_reverse distinct_score_documents)
  then have "sorted_wrt (\<lambda>a b. tuple_less b a) (take ?k (sort_reverse ?sc))"
    by (rule sorted_wrt_take)
  moreover have "set (take ?k (sort_reverse ?sc)) \<subseteq> set ?sc"
    using set_take_subset[of ?k "sort_reverse ?sc"] by (simp add: set_sort_reverse)
  moreover have "0 \<le> n \<longrightarrow> length (take ?k (sort_reverse ?sc)) \<le> nat n"
    using slice_index_le[of n "length (sort_reverse ?sc)"] by auto
  ultimately show ?thesis by (simp only: r)
qed

lemma rank_documents_member:
  assumes "(sim, i) \<in> set (rank_documents query_vector query_norm vectors norms n)"
  shows "i < length vectors \<and> i < length norms \<and> 1 / 100 < sim"
  using assms rank_documents_facts[of query_vector query_norm vectors norms n]
    score_documents_member[of sim i query_vector query_norm vectors norms]
  by blast

lemma build_results_Inr:
  "build_results docs ranked = Inr results \<Longrightarrow>
   results = map (\<lambda>(sim, idx). make_result (docs ! idx) sim) ranked"
  by (induction docs ranked arbitrary: results rule: build_results.induct)
     (auto split: if_splits sum.splits)

lemma build_results_in_range:
  "\<forall>(sim, idx)\<in>set ranked. idx < length docs \<Longrightarrow>
   build_results docs ranked = Inr (map (\<lambda>(sim, idx). make_result (docs ! idx) sim) ranked)"
  by (induction docs ranked rule: build_results.induct) auto

lemma transform_model:
  "tf_idf_vectors (snd (transform q t)) = tf_idf_vectors t \<and>
   cache_file (snd (transform q t)) = cache_file t"
  by (auto simp: transform_def Let_def split: option.splits sum.splits)

lemma search_index_consistent:
  "index_consistent s \<Longrightarrow> index_consistent (snd (search_similar_documents q n s))"
  using transform_model[of q "tfidf s"]
  by (auto simp: search_similar_documents_def index_consistent_def Let_def
      split: option.splits sum.splits prod.splits)

lemma clear_cache_index_consistent: "index_consistent (clear_cache s) = index_consistent s"
  by (simp add: clear_cache_def index_consistent_def)

text \<open>
  C10. After a successful \<^verbatim>\<open>index_documents\<close> the chunks in memory, the vectors and the
  norms are equally many; every index that the ranking of a search produces lies within
  the chunks, so that building the results raises no IndexError; and a search leaves
  this as it is. (The cache file, when one exists, holds a model written by \<^verbatim>\<open>fit\<close>.)
\<close>

theorem index_documents_consistent:
  assumes "cache_file_ok (tfidf s)" and "index_documents docs s = Some (True, s')"
  shows "length (tf_idf_vectors (tfidf s')) = length (documents s') \<and>
         length (doc_norms s') = length (documents s') \<and>
         (\<forall>(sim, idx)\<in>set (rank_documents query_vector query_norm
                               (tf_idf_vectors (tfidf s')) (doc_norms s') n).
            idx < length (documents s')) \<and>
         (\<exists>results. build_results (documents s')
                      (rank_documents query_vector query_norm
                         (tf_idf_vectors (tfidf s')) (doc_norms s') n) = Inr results) \<and>
         index_consistent (snd (search_similar_documents q n s'))"
proof -
  from index_documents_success[OF assms] have c: "index_consistent s'" by blast
  then have l: "length (tf_idf_vectors (tfidf s')) = length (documents s')"
    "length (doc_norms s') = length (documents s')"
    by (simp_all add: index_consistent_def)
  let ?r = "rank_documents query_vector query_norm (tf_idf_vectors (tfidf s')) (doc_norms s') n"
  have b: "\<forall>(sim, idx)\<in>set ?r. idx < length (documents s')"
    using rank_documents_member[of _ _ query_vector query_norm "tf_idf_vectors (tfidf s')"
        "doc_norms s'" n] l by auto
  from build_results_in_range[OF b] search_index_consistent[OF c] l b show ?thesis by blast
qed

text \<open>
  A result list for \<open>n\<close> requested results: scores descending, every score above 0.01,
  and at most \<open>n\<close> entries when \<open>n\<close> is not negative. The similarity cache is never
  cleared by \<^verbatim>\<open>index_documents\<close>, so a search can return a list made for an earlier
  corpus; every list in the cache has these properties.
\<close>

definition result_list_ok :: "int \<Rightarrow> search_result list \<Rightarrow> bool" where
  "result_list_ok n results =
     (sorted_wrt (\<lambda>a b. similarity_score b \<le> similarity_score a) results \<and>
      list_all (\<lambda>r. 1 / 100 < similarity_score r) results \<and>
      (0 \<le> n \<longrightarrow> length results \<le> nat n))"

definition similarity_cache_ok :: "engine \<Rightarrow> bool" where
  "similarity_cache_ok s =
     list_all (\<lambda>(key, results). result_list_ok (snd key) results) (similarity_cache s)"

lemma result_list_ok_Nil: "result_list_ok n []"
  by (simp add: result_list_ok_def)

lemma ranked_results_ok:
  "result_list_ok n
     (map (\<lambda>(sim, idx). make_result (docs ! idx) sim)
        (rank_documents query_vector query_norm vectors norms n))"
proof -
  let ?r = "rank_documents query_vector query_norm vectors norms n"
  note f = rank_documents_facts[of query_vector query_norm vectors norms n]
  have "sorted_wrt (\<lambda>a b. fst b \<le> fst a) ?r"
    by (rule sorted_wrt_mono_rel[OF _ f[THEN conjunct2, THEN conjunct1]])
       (auto simp: tuple_less_def)
  then have "sorted_wrt (\<lambda>a b. similarity_score b \<le> similarity_score a)
               (map (\<lambda>(sim, idx). make_result (docs ! idx) sim) ?r)"
    by (simp add: sorted_wrt_map split_def make_result_def)
  moreover have "list_all (\<lambda>r. 1 / 100 < similarity_score r)
               (map (\<lambda>(sim, idx). make_result (docs ! idx) sim) ?r)"
    using rank_documents_member[of _ _ query_vector query_norm vectors norms n]
    by (auto simp: list_all_iff make_result_def)
  ultimately show ?thesis using f by (simp add: result_list_ok_def)
qed

lemma list_all_update:
  "list_all P al \<Longrightarrow> P (k, v) \<Longrightarrow> list_all P (AList.update k v al)"
  by (induction al) (auto)

lemma list_all_delete: "list_all P al \<Longrightarrow> list_all P (AList.delete k al)"
  by (simp add: AList.delete_eq list_all_iff)

lemma list_all_evict_oldest: "list_all P al \<Longrightarrow> list_all P (evict_oldest n al)"
proof -
  have "list_all P al \<Longrightarrow> list_all P (fold AList.delete ks al)" for ks
    by (induction ks arbitrary: al) (simp_all add: list_all_delete)
  then show "list_all P al \<Longrightarrow> list_all P (evict_oldest n al)"
    by (simp add: evict_oldest_def)
qed

lemma similarity_cache_ok_lookup:
  "similarity_cache_ok s \<Longrightarrow> map_of (similarity_cache s) (q, n) = Some results \<Longrightarrow>
   result_list_ok n results"
  by (auto simp: similarity_cache_ok_def list_all_iff dest!: map_of_SomeD)

text \<open>
  C1 (as the code has it). The result list of \<^verbatim>\<open>search_similar_documents\<close> is sorted by
  score in descending order, has only scores above 0.01, and has at most \<open>n_results\<close>
  entries when \<open>n_results\<close> is not negative. A list that is computed (not taken from the
  cache) follows the tuples \<^verbatim>\<open>(similarity, i)\<close> in strictly descending order: of two
  chunks with equal scores the one that comes later in the corpus is ranked first.
\<close>

theorem search_results_ranked:
  assumes ok: "similarity_cache_ok s"
  shows "result_list_ok n (fst (search_similar_documents q n s)) \<and>
         similarity_cache_ok (snd (search_similar_documents q n s)) \<and>
         (map_of (similarity_cache s) (q, n) = None \<longrightarrow>
            (\<exists>ranked.
               fst (search_similar_documents q n s) =
                 map (\<lambda>(sim, idx). make_result (documents s ! idx) sim) ranked \<and>
               sorted_wrt (\<lambda>a b. fst b < fst a \<or> (fst b = fst a \<and> snd b < snd a)) ranked))"
proof (cases "indexed s")
  case False
  then have "search_similar_documents q n s = ([], s)"
    by (simp add: search_similar_documents_def)
  with ok show ?thesis by (auto simp: result_list_ok_Nil intro: exI[of _ "[]"])
next
  case ix: True
  show ?thesis
  proof (cases "map_of (similarity_cache s) (q, n)")
    case (Some results)
    with ix have "search_similar_documents q n s = (results, s)"
      by (simp add: search_similar_documents_def)
    with ok Some similarity_cache_ok_lookup[OF ok Some] show ?thesis by simp
  next
    case None
    obtain r t where tr: "transform q (tfidf s) = (r, t)" by (cases "transform q (tfidf s)")
    have empty: ?thesis if "search_similar_documents q n s = ([], s\<lparr>tfidf := t\<rparr>)"
      using that ok by (auto simp: result_list_ok_Nil similarity_cache_ok_def intro: exI[of _ "[]"])
    show ?thesis
    proof (cases r)
      case (Inl e)
      with ix None tr show ?thesis by (intro empty) (simp add: search_similar_documents_def)
    next
      case (Inr query_vector)
      let ?ranked = "rank_documents query_vector (vector_norm query_vector)
                       (tf_idf_vectors t) (doc_norms s) n"
      show ?thesis
      proof (cases "vector_norm query_vector = 0")
        case True
        with ix None tr Inr show ?thesis
          by (intro empty) (simp add: search_similar_documents_def)
      next
        case nz: False
        show ?thesis
        proof (cases "build_results (documents s) ?ranked")
          case (Inl e)
          with ix None tr Inr nz show ?thesis
            by (intro empty) (simp add: search_similar_documents_def)
        next
          case res: (Inr results)
          then have results: "results = map (\<lambda>(sim, idx). make_result (documents s ! idx) sim) ?ranked"
            by (rule build_results_Inr)
          then have rok: "result_list_ok n results" by (simp add: ranked_results_ok)
          let ?cache = "AList.update (q, n) results (similarity_cache s)"
          have s': "search_similar_documents q n s =
              (results, s\<lparr>tfidf := t, similarity_cache :=
                 (if length ?cache > 500 then evict_oldest 100 ?cache else ?cache)\<rparr>)"
            using ix None tr Inr nz res by (simp add: search_similar_documents_def Let_def)
          have c1: "list_all (\<lambda>(key, results). result_list_ok (snd key) results) ?cache"
            using ok rok by (intro list_all_update) (simp_all add: similarity_cache_ok_def)
          then have c2: "list_all (\<lambda>(key, results). result_list_ok (snd key) results)
                           (evict_oldest 100 ?cache)"
            by (rule list_all_evict_oldest)
          have "sorted_wrt (\<lambda>a b. fst b < fst a \<or> (fst b = fst a \<and> snd b < snd a)) ?ranked"
            using rank_documents_facts[of query_vector "vector_norm query_vector"
                "tf_idf_vectors t" "doc_norms s" n]
            by (simp add: tuple_less_def)
          with results rok c1 c2 show ?thesis
            by (auto simp: s' similarity_cache_ok_def)
        qed
      qed
    qed
  qed
qed

text \<open>
  The invariant of the similarity cache holds on a new engine and is kept by
  \<^verbatim>\<open>clear_cache\<close> and by \<^verbatim>\<open>index_documents\<close>, which leaves both caches of the engine as
  they are.
\<close>

lemma index_documents_caches:
  assumes "index_documents docs s = Some (ok, s')"
  shows "similarity_cache s' = similarity_cache s \<and> response_cache s' = response_cache s"
proof -
  from assms obtain s1 texts k where
    st: "store_documents docs (s\<lparr>db_rows := [], documents := []\<rparr>, [], 0) = Some (s1, texts, k)"
    by (auto simp: index_documents_def split: option.splits)
  from store_documents_frame[OF st] have "similarity_cache s1 = similarity_cache s"
    "response_cache s1 = response_cache s" by simp_all
  with assms st show ?thesis
    by (auto simp: index_documents_def split: if_splits option.splits prod.splits)
qed

lemma similarity_cache_ok_reachable:
  "similarity_cache_ok new_engine"
  "similarity_cache_ok (clear_cache s)"
  "index_documents docs s = Some (ok, s') \<Longrightarrow> similarity_cache_ok s' = similarity_cache_ok s"
  using index_documents_caches[of docs s ok s']
  by (simp_all add: similarity_cache_ok_def new_engine_def clear_cache_def)

section \<open>The program on a small corpus\<close>

text \<open>
  Three documents of one chunk each, two of them with the same text, and the engine that
  indexing them on a new engine gives.
\<close>

definition example_document :: "string \<Rightarrow> string \<Rightarrow> document" where
  "example_document name text =
     \<lparr>file_name = name, file_path = name, title = name, content = text, content_type = ''text''\<rparr>"

definition corpus_a :: "document list" where
  "corpus_a = [example_document ''a.txt'' ''cat'', example_document ''b.txt'' ''cat'',
               example_document ''c.txt'' ''dog'']"

lemma tokenize_bird: "tokenize ''bird'' = [''bird'']" by code_simp

lemma vocabulary_a: "build_vocabulary [[''cat''], [''cat''], [''dog'']] = [(''cat'', 0), (''dog'', 1)]"
  by code_simp

lemma frequencies_a:
  "count_document_frequencies [[''cat''], [''cat''], [''dog'']] [] = [(''cat'', 2), (''dog'', 1)]"
  by code_simp


lemma store_corpus_a:
  "store_documents corpus_a (s, [], 0) =
     Some (s\<lparr>db_rows := db_rows s @
                 [make_chunk (example_document ''a.txt'' ''cat'') ''cat'' 0 (db_seq s + 1),
                  make_chunk (example_document ''b.txt'' ''cat'') ''cat'' 0 (db_seq s + 2),
                  make_chunk (example_document ''c.txt'' ''dog'') ''dog'' 0 (db_seq s + 3)],
             db_seq := db_seq s + 3,
             documents := documents s @
                 [make_chunk (example_document ''a.txt'' ''cat'') ''cat'' 0 0,
                  make_chunk (example_document ''b.txt'' ''cat'') ''cat'' 0 1,
                  make_chunk (example_document ''c.txt'' ''dog'') ''dog'' 0 2]\<rparr>,
           [''cat'', ''cat'', ''dog''], 3)"
  by (simp add: corpus_a_def optimized_chunk_text_def example_document_def store_chunk_def
      enumerate_simps eval_nat_numeral)

lemma fit_a:
  assumes "cache_file t = None" "document_frequencies t = []" "idf_values t = []"
  shows "fit [''cat'', ''cat'', ''dog''] t =
     (None, t\<lparr>tfidf_documents := [''cat'', ''cat'', ''dog''],
              tokenize_cache := fold lru_touch [''cat'', ''cat'', ''dog''] (tokenize_cache t),
              vocabulary := [(''cat'', 0), (''dog'', 1)],
              document_frequencies := [(''cat'', 2), (''dog'', 1)],
              idf_values := [(''cat'', ln (3 / 2)), (''dog'', ln 3)],
              tf_idf_vectors := [[ln (3 / 2), 0], [ln (3 / 2), 0], [0, ln 3]],
              cache_file := Some ([''cat'', ''cat'', ''dog''],
                 \<lparr>vocabulary = [(''cat'', 0), (''dog'', 1)],
                  document_frequencies = [(''cat'', 2), (''dog'', 1)],
                  tfidf_documents = [''cat'', ''cat'', ''dog''],
                  tf_idf_vectors = [[ln (3 / 2), 0], [ln (3 / 2), 0], [0, ln 3]],
                  idf_values = [(''cat'', ln (3 / 2)), (''dog'', ln 3)]\<rparr>)\<rparr>)"
  using assms
  by (simp add: fit_def fit_compute_def tokenize_cat tokenize_dog vocabulary_a frequencies_a
      compute_tf_single Let_def model.truncate_def)


definition engine_a :: engine where
  "engine_a =
     new_engine\<lparr>
       tfidf := new_tfidf\<lparr>
         tfidf_documents := [''cat'', ''cat'', ''dog''],
         tokenize_cache := [(''dog'', [''dog'']), (''cat'', [''cat''])],
         vocabulary := [(''cat'', 0), (''dog'', 1)],
         document_frequencies := [(''cat'', 2), (''dog'', 1)],
         idf_values := [(''cat'', ln (3 / 2)), (''dog'', ln 3)],
         tf_idf_vectors := [[ln (3 / 2), 0], [ln (3 / 2), 0], [0, ln 3]],
         cache_file := Some ([''cat'', ''cat'', ''dog''],
           \<lparr>vocabulary = [(''cat'', 0), (''dog'', 1)],
            document_frequencies = [(''cat'', 2), (''dog'', 1)],
            tfidf_documents = [''cat'', ''cat'', ''dog''],
            tf_idf_vectors = [[ln (3 / 2), 0], [ln (3 / 2), 0], [0, ln 3]],
            idf_values = [(''cat'', ln (3 / 2)), (''dog'', ln 3)]\<rparr>)\<rparr>,
       db_rows := [make_chunk (example_document ''a.txt'' ''cat'') ''cat'' 0 1,
                   make_chunk (example_document ''b.txt'' ''cat'') ''cat'' 0 2,
                   make_chunk (example_document ''c.txt'' ''dog'') ''dog'' 0 3],
       db_seq := 3,
       documents := [make_chunk (example_document ''a.txt'' ''cat'') ''cat'' 0 0,
                     make_chunk (example_document ''b.txt'' ''cat'') ''cat'' 0 1,
                     make_chunk (example_document ''c.txt'' ''dog'') ''dog'' 0 2],
       doc_norms := [ln (3 / 2), ln (3 / 2), ln 3],
       indexed := True\<rparr>"

lemma ln_pos_facts: "0 < ln (3 / 2 :: real)" "0 < ln (3 :: real)"
  by (simp_all add: ln_gt_zero)

lemma vector_norm_unit: "0 \<le> x \<Longrightarrow> vector_norm [x, 0] = x" "0 \<le> x \<Longrightarrow> vector_norm [0, x] = x"
  by (simp_all add: vector_norm_def)

lemma lru_a:
  "lru_touch ''dog'' (lru_touch ''cat'' (lru_touch ''cat'' [])) =
     [(''dog'', [''dog'']), (''cat'', [''cat''])]"
  by (simp add: lru_touch_def tokenize_cat tokenize_dog)

lemma index_corpus_a: "index_documents corpus_a new_engine = Some (True, engine_a)"
proof -
  have st: "store_documents corpus_a (new_engine\<lparr>db_rows := [], documents := []\<rparr>, [], 0) =
      Some (new_engine\<lparr>db_rows := [make_chunk (example_document ''a.txt'' ''cat'') ''cat'' 0 1,
                   make_chunk (example_document ''b.txt'' ''cat'') ''cat'' 0 2,
                   make_chunk (example_document ''c.txt'' ''dog'') ''dog'' 0 3],
             db_seq := 3,
             documents := [make_chunk (example_document ''a.txt'' ''cat'') ''cat'' 0 0,
                  make_chunk (example_document ''b.txt'' ''cat'') ''cat'' 0 1,
                  make_chunk (example_document ''c.txt'' ''dog'') ''dog'' 0 2]\<rparr>,
           [''cat'', ''cat'', ''dog''], 3)"
    unfolding store_corpus_a by (simp add: new_engine_def eval_nat_numeral)
  have f: "fit [''cat'', ''cat'', ''dog''] new_tfidf = (None, tfidf engine_a)"
    unfolding fit_a[of new_tfidf, simplified new_tfidf_def, simplified, folded new_tfidf_def]
    by (simp add: engine_a_def lru_a new_tfidf_def)
  show ?thesis
    unfolding index_documents_def st
    by (simp add: f new_engine_def engine_a_def vector_norm_unit ln_pos_facts less_imp_le)
qed

lemma rank_a:
  assumes "0 < l" "0 < m"
  shows "rank_documents [l, 0] l [[l, 0], [l, 0], [0, m]] [l, l, m] 5 = [(1, 1), (1, 0)]"
  using assms
  by (simp add: rank_documents_def score_documents_def similarity_def sort_reverse_def
      tuple_less_def py_slice_def slice_index_def)

lemma query_cat_a: "query_tfidf (tfidf engine_a) ''cat'' = Inr [ln (3 / 2), 0]"
  by (simp add: query_tfidf_def engine_a_def new_engine_def new_tfidf_def tokenize_cat
      compute_tf_single)

definition results_a :: "search_result list" where
  "results_a =
     [make_result (make_chunk (example_document ''b.txt'' ''cat'') ''cat'' 0 1) 1,
      make_result (make_chunk (example_document ''a.txt'' ''cat'') ''cat'' 0 0) 1]"

lemma engine_a_fields:
  "indexed engine_a" "similarity_cache engine_a = []" "vector_cache (tfidf engine_a) = []"
  "tf_idf_vectors (tfidf engine_a) = [[ln (3 / 2), 0], [ln (3 / 2), 0], [0, ln 3]]"
  "doc_norms engine_a = [ln (3 / 2), ln (3 / 2), ln 3]"
  "documents engine_a = [make_chunk (example_document ''a.txt'' ''cat'') ''cat'' 0 0,
                     make_chunk (example_document ''b.txt'' ''cat'') ''cat'' 0 1,
                     make_chunk (example_document ''c.txt'' ''dog'') ''dog'' 0 2]"
  "cache_file (tfidf engine_a) = Some ([''cat'', ''cat'', ''dog''],
           \<lparr>vocabulary = [(''cat'', 0), (''dog'', 1)],
            document_frequencies = [(''cat'', 2), (''dog'', 1)],
            tfidf_documents = [''cat'', ''cat'', ''dog''],
            tf_idf_vectors = [[ln (3 / 2), 0], [ln (3 / 2), 0], [0, ln 3]],
            idf_values = [(''cat'', ln (3 / 2)), (''dog'', ln 3)]\<rparr>)"
  by (simp_all add: engine_a_def new_engine_def new_tfidf_def)

lemma transform_cat_a:
  "fst (transform ''cat'' (tfidf engine_a)) = Inr [ln (3 / 2), 0] \<and>
   tf_idf_vectors (snd (transform ''cat'' (tfidf engine_a))) = tf_idf_vectors (tfidf engine_a)"
  using transform_miss[of "tfidf engine_a" "''cat''"] transform_model[of "''cat''" "tfidf engine_a"]
  by (simp add: engine_a_fields query_cat_a)

lemma search_cat_a:
  "fst (search_similar_documents ''cat'' 5 engine_a) = results_a \<and>
   similarity_cache (snd (search_similar_documents ''cat'' 5 engine_a)) = [((''cat'', 5), results_a)]"
proof -
  obtain t where t: "transform ''cat'' (tfidf engine_a) = (Inr [ln (3 / 2), 0], t)"
    and v: "tf_idf_vectors t = [[ln (3 / 2), 0], [ln (3 / 2), 0], [0, ln 3]]"
    using transform_cat_a by (cases "transform ''cat'' (tfidf engine_a)") (simp add: engine_a_fields)
  have n: "vector_norm [ln (3 / 2), 0] = ln (3 / 2)"
    by (simp add: vector_norm_unit ln_pos_facts less_imp_le)
  have r: "rank_documents [ln (3 / 2), 0] (ln (3 / 2)) [[ln (3 / 2), 0], [ln (3 / 2), 0], [0, ln 3]]
             [ln (3 / 2), ln (3 / 2), ln 3] 5 = [(1, 1), (1, 0)]"
    by (rule rank_a) (simp_all add: ln_pos_facts)
  have nz: "ln (3 / 2 :: real) \<noteq> 0" using ln_pos_facts(1) by simp
  show ?thesis
    by (simp add: search_similar_documents_def engine_a_fields t v n r nz results_a_def Let_def
        del: ln_eq_zero_iff)
qed

lemma strip_whitespace: "\<forall>c\<in>set s. is_space c \<Longrightarrow> strip s = []"
proof -
  assume "\<forall>c\<in>set s. is_space c"
  then have d: "dropWhile is_space s = []" by (induction s) auto
  show ?thesis unfolding strip_def d by simp
qed

lemma set_py_slice: "set (py_slice xs lo hi) \<subseteq> set xs"
  by (auto simp: py_slice_def Let_def dest!: in_set_takeD in_set_dropD)

lemma chunk_loop_whitespace:
  assumes "chunk_loop t ses cs ov start chunks = Some r"
  shows "(\<forall>c\<in>set t. is_space c) \<and> chunks = [] \<longrightarrow> r = []"
proof (rule chunk_loop.raw_induct[where P = "\<lambda>t ses cs ov start chunks r.
    (\<forall>c\<in>set t. is_space c) \<and> chunks = [] \<longrightarrow> r = []", OF _ assms], goal_cases)
  case (1 f t ses cs ov start chunks r)
  show ?case
  proof
    assume a: "(\<forall>c\<in>set t. is_space c) \<and> chunks = []"
    then have s: "strip (py_slice t lo hi) = []" for lo hi
      using set_py_slice[of t lo hi] by (intro strip_whitespace) blast
    show "r = []"
    proof (cases "start < int (length t)")
      case True
      with 1(2) a s obtain start' where "f t ses cs ov start' [] = Some r"
        by (auto simp: Let_def)
      with 1(1) a show ?thesis by blast
    next
      case False
      with 1(2) a show ?thesis by simp
    qed
  qed
qed

lemma optimized_chunk_text_whitespace:
  assumes "\<forall>c\<in>set t. is_space c" and "1000 < length t"
  shows "optimized_chunk_text t 1000 200 = Some []"
proof -
  obtain r where r: "chunk_loop t (sentence_ends_from 0 t) 1000 200 0 [] = Some r"
    using chunk_loop_terminates[of 1000 200 t "sentence_ends_from 0 t" 0 "[]"] by auto
  with chunk_loop_whitespace[OF r] assms(1) have "r = []" by simp
  with r assms(2) show ?thesis by (simp add: optimized_chunk_text_def)
qed

definition blank_document :: document where
  "blank_document = example_document ''blank.txt'' (replicate 1001 (CHR '' ''))"

lemma blank_document_no_chunks:
  "optimized_chunk_text (content blank_document) 1000 200 = Some []"
proof (rule optimized_chunk_text_whitespace)
  have "is_space (CHR '' '')" by code_simp
  then show "\<forall>c\<in>set (content blank_document). is_space c"
    by (simp add: blank_document_def example_document_def)
  show "1000 < length (content blank_document)"
    by (simp add: blank_document_def example_document_def)
qed

text \<open>
  A document of 1001 spaces yields no chunk; indexing it on the engine above returns False
  and empties the table and the chunks in memory.
\<close>

theorem index_documents_no_chunks_witness:
  "index_documents [blank_document] engine_a =
     Some (False, engine_a\<lparr>db_rows := [], documents := []\<rparr>)"
  using index_documents_no_chunks[of "[blank_document]" engine_a] blank_document_no_chunks
  by simp

lemma search_cat_emptied:
  "fst (search_similar_documents ''cat'' 5 (engine_a\<lparr>db_rows := [], documents := []\<rparr>)) = []"
proof -
  let ?s = "engine_a\<lparr>db_rows := [], documents := []\<rparr>"
  obtain t where t: "transform ''cat'' (tfidf engine_a) = (Inr [ln (3 / 2), 0], t)"
    and v: "tf_idf_vectors t = [[ln (3 / 2), 0], [ln (3 / 2), 0], [0, ln 3]]"
    using transform_cat_a by (cases "transform ''cat'' (tfidf engine_a)") (simp add: engine_a_fields)
  have n: "vector_norm [ln (3 / 2), 0] = ln (3 / 2)"
    by (simp add: vector_norm_unit ln_pos_facts less_imp_le)
  have r: "rank_documents [ln (3 / 2), 0] (ln (3 / 2)) [[ln (3 / 2), 0], [ln (3 / 2), 0], [0, ln 3]]
             [ln (3 / 2), ln (3 / 2), ln 3] 5 = [(1, 1), (1, 0)]"
    by (rule rank_a) (simp_all add: ln_pos_facts)
  have nz: "ln (3 / 2 :: real) \<noteq> 0" using ln_pos_facts(1) by simp
  show ?thesis
    by (simp add: search_similar_documents_def engine_a_fields t v n r nz Let_def
        del: ln_eq_zero_iff)
qed

text \<open>
  C3 as stated fails: the prior state does not survive. After the failed call the three
  persisted records and the three chunks in memory are gone while \<^verbatim>\<open>indexed\<close> is still
  set, and the query that found two chunks before now runs into the missing chunks and
  returns nothing.
\<close>

theorem index_documents_no_chunks_counterexample:
  "index_documents corpus_a new_engine = Some (True, engine_a) \<and>
   fst (search_similar_documents ''cat'' 5 engine_a) = results_a \<and>
   index_documents [blank_document] engine_a =
     Some (False, engine_a\<lparr>db_rows := [], documents := []\<rparr>) \<and>
   length (db_rows engine_a) = 3 \<and> length (documents engine_a) = 3 \<and>
   indexed (engine_a\<lparr>db_rows := [], documents := []\<rparr>) \<and>
   fst (search_similar_documents ''cat'' 5 (engine_a\<lparr>db_rows := [], documents := []\<rparr>)) = []"
proof -
  have "index_documents [blank_document] engine_a =
     Some (False, engine_a\<lparr>db_rows := [], documents := []\<rparr>)"
    using store_documents_no_chunks[of "[blank_document]"] blank_document_no_chunks
    by (simp add: index_documents_def)
  then show ?thesis
    using index_corpus_a search_cat_a search_cat_emptied
    by (simp add: engine_a_fields) (simp add: engine_a_def)
qed

text \<open>
  What \<^verbatim>\<open>clear_cache\<close> changes and what it keeps: three caches are emptied; the
  \<^verbatim>\<open>lru_cache\<close> of \<^verbatim>\<open>tokenize\<close>, the model, the cache file, the table, the chunks, the
  flag and the norms are as before.
\<close>

lemma clear_cache_frame:
  "response_cache (clear_cache s) = [] \<and> similarity_cache (clear_cache s) = [] \<and>
   vector_cache (tfidf (clear_cache s)) = [] \<and>
   tokenize_cache (tfidf (clear_cache s)) = tokenize_cache (tfidf s) \<and>
   model.truncate (tfidf (clear_cache s)) = model.truncate (tfidf s) \<and>
   cache_file (tfidf (clear_cache s)) = cache_file (tfidf s) \<and>
   db_rows (clear_cache s) = db_rows s \<and> db_seq (clear_cache s) = db_seq s \<and>
   documents (clear_cache s) = documents s \<and> indexed (clear_cache s) = indexed s \<and>
   doc_norms (clear_cache s) = doc_norms s"
  by (simp add: clear_cache_def model.truncate_def)

text \<open>
  C4 (the code at the failing input). \<^verbatim>\<open>clear_cache\<close> ("Clear all caches", "All caches
  cleared") never calls \<^verbatim>\<open>tokenize.cache_clear()\<close>: after indexing the three documents and
  clearing, the tokenization cache still holds both texts.
\<close>

theorem clear_cache_keeps_tokenize_cache:
  "index_documents corpus_a new_engine = Some (True, engine_a) \<and>
   tokenize_cache (tfidf (clear_cache engine_a)) = [(''dog'', [''dog'']), (''cat'', [''cat''])] \<and>
   response_cache (clear_cache engine_a) = [] \<and> similarity_cache (clear_cache engine_a) = [] \<and>
   vector_cache (tfidf (clear_cache engine_a)) = []"
  using index_corpus_a clear_cache_frame[of engine_a]
  by (simp add: engine_a_def new_engine_def new_tfidf_def)

lemma rank_a_negative:
  assumes "0 < l" "0 < m"
  shows "rank_documents [l, 0] l [[l, 0], [l, 0], [0, m]] [l, l, m] (- 1) = [(1, 1)]"
  using assms
  by (simp add: rank_documents_def score_documents_def similarity_def sort_reverse_def
      tuple_less_def py_slice_def slice_index_def)

lemma search_cat_a_negative:
  "fst (search_similar_documents ''cat'' (- 1) engine_a) =
     [make_result (make_chunk (example_document ''b.txt'' ''cat'') ''cat'' 0 1) 1]"
proof -
  obtain t where t: "transform ''cat'' (tfidf engine_a) = (Inr [ln (3 / 2), 0], t)"
    and v: "tf_idf_vectors t = [[ln (3 / 2), 0], [ln (3 / 2), 0], [0, ln 3]]"
    using transform_cat_a by (cases "transform ''cat'' (tfidf engine_a)") (simp add: engine_a_fields)
  have n: "vector_norm [ln (3 / 2), 0] = ln (3 / 2)"
    by (simp add: vector_norm_unit ln_pos_facts less_imp_le)
  have r: "rank_documents [ln (3 / 2), 0] (ln (3 / 2)) [[ln (3 / 2), 0], [ln (3 / 2), 0], [0, ln 3]]
             [ln (3 / 2), ln (3 / 2), ln 3] (- 1) = [(1, 1)]"
    by (rule rank_a_negative) (simp_all add: ln_pos_facts)
  have nz: "ln (3 / 2 :: real) \<noteq> 0" using ln_pos_facts(1) by simp
  show ?thesis
    by (simp add: search_similar_documents_def engine_a_fields t v n r nz Let_def
        del: ln_eq_zero_iff)
qed

text \<open>
  C1 as stated fails. The chunks of \<^verbatim>\<open>a.txt\<close> and \<^verbatim>\<open>b.txt\<close> both score 1 for the query
  \<^verbatim>\<open>cat\<close>, and \<^verbatim>\<open>b.txt\<close>, the later one, is ranked first. With \<open>n_results = -1\<close> the
  slice \<^verbatim>\<open>similarities[:-1]\<close> drops the last candidate and one result is returned.
\<close>

theorem search_tie_order_counterexample:
  "index_documents corpus_a new_engine = Some (True, engine_a) \<and>
   fst (search_similar_documents ''cat'' 5 engine_a) = results_a \<and>
   map result_file_name results_a = [''b.txt'', ''a.txt''] \<and>
   map similarity_score results_a = [1, 1] \<and>
   map file_name (documents engine_a) = [''a.txt'', ''b.txt'', ''c.txt''] \<and>
   length (fst (search_similar_documents ''cat'' (- 1) engine_a)) = 1"
  using index_corpus_a search_cat_a search_cat_a_negative
  by (simp add: results_a_def make_result_def make_chunk_def example_document_def engine_a_fields)

theorem search_results_ranked_witness:
  "similarity_cache_ok engine_a \<and>
   result_list_ok 5 (fst (search_similar_documents ''cat'' 5 engine_a)) \<and>
   similarity_cache_ok (snd (search_similar_documents ''cat'' 5 engine_a)) \<and>
   map_of (similarity_cache engine_a) (''cat'', 5) = None \<and>
   (\<exists>ranked.
      fst (search_similar_documents ''cat'' 5 engine_a) =
        map (\<lambda>(sim, idx). make_result (documents engine_a ! idx) sim) ranked \<and>
      sorted_wrt (\<lambda>a b. fst b < fst a \<or> (fst b = fst a \<and> snd b < snd a)) ranked)"
proof -
  have ok: "similarity_cache_ok engine_a"
    by (simp add: similarity_cache_ok_def engine_a_fields)
  have m: "map_of (similarity_cache engine_a) (''cat'', 5) = None"
    by (simp add: engine_a_fields)
  from search_results_ranked[OF ok, of 5 "''cat''"] ok m show ?thesis by simp
qed

theorem index_documents_consistent_witness:
  "cache_file_ok (tfidf new_engine) \<and>
   index_documents corpus_a new_engine = Some (True, engine_a) \<and>
   length (tf_idf_vectors (tfidf engine_a)) = length (documents engine_a) \<and>
   length (doc_norms engine_a) = length (documents engine_a) \<and>
   (\<exists>results. build_results (documents engine_a)
                 (rank_documents [ln (3 / 2), 0] (ln (3 / 2))
                    (tf_idf_vectors (tfidf engine_a)) (doc_norms engine_a) 5) = Inr results) \<and>
   index_consistent (snd (search_similar_documents ''cat'' 5 engine_a))"
proof -
  have ok: "cache_file_ok (tfidf new_engine)"
    by (simp add: cache_file_ok_def new_engine_def new_tfidf_def)
  from index_documents_consistent[OF ok index_corpus_a, where query_vector = "[ln (3 / 2), 0]"
      and query_norm = "ln (3 / 2)" and n = 5 and q = "''cat''"]
    ok index_corpus_a show ?thesis by simp
qed

section \<open>Empty results, and results from the cache\<close>

text \<open>
  C7 (as the code has it). \<^verbatim>\<open>search_similar_documents\<close> returns the empty list, and
  changes nothing, when nothing has been indexed. When neither the similarity cache has an
  entry for the query and \<open>n_results\<close> nor the vector cache one for the query, it returns the
  empty list whenever the TF-IDF vector of the query under the fitted model has norm 0.
  Both are ordinary returns. The similarity cache is read before the query is looked at.
\<close>

theorem search_empty_cases:
  "(\<not> indexed s \<longrightarrow> search_similar_documents q n s = ([], s)) \<and>
   (map_of (similarity_cache s) (q, n) = None \<and> map_of (vector_cache (tfidf s)) q = None \<and>
    query_tfidf (tfidf s) q = Inr v \<and> vector_norm v = 0 \<longrightarrow>
      fst (search_similar_documents q n s) = [])"
proof (intro conjI impI)
  assume "\<not> indexed s"
  then show "search_similar_documents q n s = ([], s)"
    by (simp add: search_similar_documents_def)
next
  assume a: "map_of (similarity_cache s) (q, n) = None \<and> map_of (vector_cache (tfidf s)) q = None \<and>
    query_tfidf (tfidf s) q = Inr v \<and> vector_norm v = 0"
  then have "fst (transform q (tfidf s)) = Inr v" by (simp add: transform_miss)
  then obtain t where "transform q (tfidf s) = (Inr v, t)"
    by (cases "transform q (tfidf s)") simp
  with a show "fst (search_similar_documents q n s) = []"
    by (simp add: search_similar_documents_def)
qed

lemma tokenize_digits: "tokenize ''123 a'' = []" by code_simp

lemma query_tfidf_no_tokens:
  "tokenize q = [] \<Longrightarrow> query_tfidf t q = Inr (replicate (length (vocabulary t)) 0)"
  by (simp add: query_tfidf_def compute_tf_def)

lemma vector_norm_zero: "vector_norm (replicate k 0) = 0"
  by (induction k) (simp_all add: vector_norm_def)

text \<open>
  A new engine has nothing indexed; on the engine of the three documents the query
  \<^verbatim>\<open>123 a\<close> has no token, its vector is zero and the search returns nothing.
\<close>

theorem search_empty_cases_witness:
  "\<not> indexed new_engine \<and> search_similar_documents ''cat'' 5 new_engine = ([], new_engine) \<and>
   indexed engine_a \<and> map_of (similarity_cache engine_a) (''123 a'', 5) = None \<and>
   map_of (vector_cache (tfidf engine_a)) ''123 a'' = None \<and>
   query_tfidf (tfidf engine_a) ''123 a'' = Inr [0, 0] \<and> vector_norm [0, 0] = 0 \<and>
   fst (search_similar_documents ''123 a'' 5 engine_a) = []"
proof -
  have n: "\<not> indexed new_engine" by (simp add: new_engine_def)
  have m: "map_of (similarity_cache engine_a) (''123 a'', 5) = None"
    "map_of (vector_cache (tfidf engine_a)) ''123 a'' = None"
    by (simp_all add: engine_a_fields)
  have q: "query_tfidf (tfidf engine_a) ''123 a'' = Inr [0, 0]"
    using query_tfidf_no_tokens[OF tokenize_digits, of "tfidf engine_a"]
    by (simp add: engine_a_def new_engine_def new_tfidf_def)
  have z: "vector_norm [0, 0] = 0" by (simp add: vector_norm_def)
  from search_empty_cases[where s = new_engine and q = "''cat''" and n = 5]
  have 1: "search_similar_documents ''cat'' 5 new_engine = ([], new_engine)" using n by blast
  from search_empty_cases[where s = engine_a and q = "''123 a''" and n = 5 and v = "[0, 0]"] m q z
  have 2: "fst (search_similar_documents ''123 a'' 5 engine_a) = []" by blast
  from n 1 m q z 2 show ?thesis by (simp add: engine_a_fields)
qed

lemma search_frame:
  "documents (snd (search_similar_documents q n s)) = documents s \<and>
   db_rows (snd (search_similar_documents q n s)) = db_rows s \<and>
   db_seq (snd (search_similar_documents q n s)) = db_seq s \<and>
   indexed (snd (search_similar_documents q n s)) = indexed s \<and>
   doc_norms (snd (search_similar_documents q n s)) = doc_norms s \<and>
   response_cache (snd (search_similar_documents q n s)) = response_cache s \<and>
   cache_file (tfidf (snd (search_similar_documents q n s))) = cache_file (tfidf s)"
  using transform_model[of q "tfidf s"]
  by (auto simp: search_similar_documents_def Let_def split: option.splits sum.splits prod.splits)

lemma index_documents_True:
  assumes "store_documents docs (s\<lparr>db_rows := [], documents := []\<rparr>, [], 0) = Some (s1, texts, k)"
    and "texts \<noteq> []"
  shows "index_documents docs s =
     Some (True, s1\<lparr>tfidf := snd (fit texts (tfidf s1)),
                    doc_norms := map vector_norm (tf_idf_vectors (snd (fit texts (tfidf s1)))),
                    indexed := True\<rparr>)"
proof -
  from fit_total[OF assms(2), of "tfidf s1"] obtain t where "fit texts (tfidf s1) = (None, t)"
    by (cases "fit texts (tfidf s1)") simp
  with assms show ?thesis by (simp add: index_documents_def)
qed

lemma fit_vocabulary:
  assumes "cache_file t = Some (docs', m)" and "docs' \<noteq> docs"
  shows "vocabulary (snd (fit docs t)) = build_vocabulary (map tokenize docs)"
  using assms
  by (auto simp: fit_def fit_compute_def Let_def split: option.splits prod.splits)

text \<open>
  A second corpus without the word \<^verbatim>\<open>cat\<close>, indexed on the engine of the three documents
  after the query \<^verbatim>\<open>cat\<close> has been answered there.
\<close>

definition corpus_b :: "document list" where
  "corpus_b = [example_document ''d.txt'' ''dog'', example_document ''e.txt'' ''bird'']"

definition engine_b :: engine where
  "engine_b =
     snd (the (index_documents corpus_b (snd (search_similar_documents ''cat'' 5 engine_a))))"

lemma vocabulary_b: "build_vocabulary [[''dog''], [''bird'']] = [(''bird'', 0), (''dog'', 1)]"
  by code_simp

lemma store_corpus_b:
  "\<exists>s1. store_documents corpus_b (s, [], 0) = Some (s1, [''dog'', ''bird''], 2)"
  by (simp add: corpus_b_def optimized_chunk_text_def example_document_def store_chunk_def
      enumerate_simps)

lemma index_corpus_b:
  "index_documents corpus_b (snd (search_similar_documents ''cat'' 5 engine_a)) =
     Some (True, engine_b) \<and>
   indexed engine_b \<and>
   similarity_cache engine_b = [((''cat'', 5), results_a)] \<and>
   vocabulary (tfidf engine_b) = [(''bird'', 0), (''dog'', 1)]"
proof -
  let ?s2 = "snd (search_similar_documents ''cat'' 5 engine_a)"
  obtain s1 where st:
    "store_documents corpus_b (?s2\<lparr>db_rows := [], documents := []\<rparr>, [], 0) =
       Some (s1, [''dog'', ''bird''], 2)"
    using store_corpus_b by blast
  from store_documents_frame[OF st] have fr: "tfidf s1 = tfidf ?s2"
    "similarity_cache s1 = similarity_cache ?s2" by simp_all
  have i: "index_documents corpus_b ?s2 =
     Some (True, s1\<lparr>tfidf := snd (fit [''dog'', ''bird''] (tfidf s1)),
        doc_norms := map vector_norm (tf_idf_vectors (snd (fit [''dog'', ''bird''] (tfidf s1)))),
        indexed := True\<rparr>)"
    by (rule index_documents_True[OF st]) simp
  then have b: "engine_b = s1\<lparr>tfidf := snd (fit [''dog'', ''bird''] (tfidf s1)),
        doc_norms := map vector_norm (tf_idf_vectors (snd (fit [''dog'', ''bird''] (tfidf s1)))),
        indexed := True\<rparr>"
    by (simp add: engine_b_def)
  have c: "cache_file (tfidf s1) = cache_file (tfidf engine_a)"
    using search_frame[of "''cat''" 5 engine_a] fr by simp
  have v: "vocabulary (snd (fit [''dog'', ''bird''] (tfidf s1))) = [(''bird'', 0), (''dog'', 1)]"
    using fit_vocabulary[of "tfidf s1" _ _ "[''dog'', ''bird'']"] c
    by (simp add: engine_a_fields tokenize_dog tokenize_bird vocabulary_b)
  have 1: "indexed engine_b" by (subst b) simp
  have 2: "similarity_cache engine_b = [((''cat'', 5), results_a)]"
    using fr search_cat_a by (subst b) simp
  have 3: "vocabulary (tfidf engine_b) = [(''bird'', 0), (''dog'', 1)]"
    using v by (subst b) simp
  show ?thesis using i 1 2 3 by (simp only: b[symmetric])
qed

text \<open>
  C7 as stated fails: \<^verbatim>\<open>index_documents\<close> clears no cache. After the second corpus has
  been indexed the vocabulary has no \<^verbatim>\<open>cat\<close> and the TF-IDF vector of the query
  \<^verbatim>\<open>cat\<close> is zero, yet the search returns the two results cached for the first corpus.
\<close>

theorem search_stale_cache_counterexample:
  "index_documents corpus_a new_engine = Some (True, engine_a) \<and>
   fst (search_similar_documents ''cat'' 5 engine_a) = results_a \<and>
   index_documents corpus_b (snd (search_similar_documents ''cat'' 5 engine_a)) =
     Some (True, engine_b) \<and>
   indexed engine_b \<and>
   vocabulary (tfidf engine_b) = [(''bird'', 0), (''dog'', 1)] \<and>
   query_tfidf (tfidf engine_b) ''cat'' = Inr [0, 0] \<and> vector_norm [0, 0] = 0 \<and>
   fst (search_similar_documents ''cat'' 5 engine_b) = results_a \<and>
   length results_a = 2"
proof -
  note b = index_corpus_b
  have q: "query_tfidf (tfidf engine_b) ''cat'' = Inr [0, 0]"
    using b by (simp add: query_tfidf_def tokenize_cat compute_tf_single)
  have s: "fst (search_similar_documents ''cat'' 5 engine_b) = results_a"
    using b by (simp add: search_similar_documents_def)
  show ?thesis
    using index_corpus_a search_cat_a b q s by (simp add: vector_norm_def results_a_def)
qed

text \<open>
  A new vectorizer has no cache file, and transforming, searching and clearing the caches
  do not write it.
\<close>

lemma cache_file_ok_reachable:
  "cache_file_ok new_tfidf"
  "cache_file_ok (snd (transform q t)) = cache_file_ok t"
  "cache_file_ok (tfidf (snd (search_similar_documents q n s))) = cache_file_ok (tfidf s)"
  "cache_file_ok (tfidf (clear_cache s)) = cache_file_ok (tfidf s)"
  using transform_model[of q t] search_frame[of q n s]
  by (simp_all add: cache_file_ok_def new_tfidf_def clear_cache_def)

section \<open>The cosine similarity of OptimizedTFIDF in exact arithmetic\<close>

text \<open>
  The engine does not call \<^verbatim>\<open>cosine_similarity_optimized\<close>; its search has a loop of its
  own. Over the reals the function is symmetric, and it is 1 on a vector with a non-zero
  entry. What the IEEE doubles of the program do (rounding, a square that underflows to
  0.0 or overflows) is not expressed by these lemmas.
\<close>

lemma cosine_fold:
  "fold (\<lambda>(a, b) (d, m1, m2). (d + a * b, m1 + a * a, m2 + b * b)) ps (d, m1, m2) =
     (d + (\<Sum>(a, b)\<leftarrow>ps. a * b), m1 + (\<Sum>(a, b)\<leftarrow>ps. a * a), m2 + (\<Sum>(a, b)\<leftarrow>ps. b * b :: real))"
  by (induction ps arbitrary: d m1 m2) (auto simp: algebra_simps)

lemma cosine_similarity_sums:
  "cosine_similarity_optimized u v =
     (if (\<Sum>(a, b)\<leftarrow>zip u v. a * a) = 0 \<or> (\<Sum>(a, b)\<leftarrow>zip u v. b * b) = 0 then 0
      else (\<Sum>(a, b)\<leftarrow>zip u v. a * b) /
           (sqrt (\<Sum>(a, b)\<leftarrow>zip u v. a * a) * sqrt (\<Sum>(a, b)\<leftarrow>zip u v. b * b)))"
  by (simp add: cosine_similarity_optimized_def cosine_fold)

lemma sum_zip_swap:
  "(\<Sum>(a, b)\<leftarrow>zip u v. f a b) = (\<Sum>(b, a)\<leftarrow>zip v u. f a b :: real)"
  by (induction u v rule: list_induct2') auto

lemma cosine_similarity_symmetric:
  "cosine_similarity_optimized u v = cosine_similarity_optimized v u"
proof -
  have 1: "(\<Sum>(a, b)\<leftarrow>zip u v. a * b) = (\<Sum>(a, b)\<leftarrow>zip v u. a * b)"
    using sum_zip_swap[of "\<lambda>a b. a * b" u v] by (simp add: mult.commute)
  have 2: "(\<Sum>(a, b)\<leftarrow>zip u v. a * a) = (\<Sum>(a, b)\<leftarrow>zip v u. b * b)"
    using sum_zip_swap[of "\<lambda>a b. a * a" u v] by simp
  have 3: "(\<Sum>(a, b)\<leftarrow>zip u v. b * b) = (\<Sum>(a, b)\<leftarrow>zip v u. a * a)"
    using sum_zip_swap[of "\<lambda>a b. b * b" u v] by simp
  show ?thesis by (simp only: cosine_similarity_sums 1 2 3) (simp add: mult.commute disj_commute)
qed

lemma sum_zip_self: "(\<Sum>(a, b)\<leftarrow>zip v v. f a b) = (\<Sum>a\<leftarrow>v. f a a :: real)"
  by (induction v) auto

lemma cosine_similarity_self:
  assumes "\<exists>x\<in>set v. x \<noteq> 0"
  shows "cosine_similarity_optimized v v = 1"
proof -
  let ?m = "\<Sum>a\<leftarrow>v. a * a"
  have nn: "0 \<le> (\<Sum>a\<leftarrow>w. a * a :: real)" for w by (induction w) auto
  have "0 < ?m" using assms
  proof (induction v)
    case Nil
    then show ?case by simp
  next
    case (Cons x xs)
    show ?case
    proof (cases "x = 0")
      case True
      with Cons show ?thesis by simp
    next
      case False
      then have "0 < x * x" by (auto simp: zero_less_mult_iff)
      with nn[of xs] show ?thesis by simp
    qed
  qed
  then show ?thesis by (simp add: cosine_similarity_sums sum_zip_self)
qed


end
